theory Spec2Isabelle
  imports Main "HOL-Library.Sublist"
begin

section \<open>Python values the generator relies on\<close>

text \<open>
  The exceptions that the modelled library calls can raise. \<open>KeyboardInterrupt\<close> stands
  for the exceptions outside Python's \<open>Exception\<close> class, which an
  \<^verbatim>\<open>except Exception\<close> handler does not catch.
\<close>

datatype error =
    IndexError | ValueError | RuntimeError | ImportError | OSError
  | FileNotFoundError | NotADirectoryError | IsADirectoryError | FileExistsError
  | KeyboardInterrupt

fun is_Exception :: "error \<Rightarrow> bool" where
  "is_Exception KeyboardInterrupt = False"
| "is_Exception _ = True"

subsection \<open>The shared randomness source\<close>

text \<open>
  \<^verbatim>\<open>RANDOM = random.Random(207)\<close>. The Mersenne Twister is library code; its state is
  modelled by the stream of numbers its successive calls will yield. \<open>choice\<close> is the
  library's \<^verbatim>\<open>seq[self._randbelow(len(seq))]\<close>: it consumes one number of the stream,
  reduced below the length, and raises \<open>IndexError\<close> on an empty sequence.
\<close>

type_synonym rng = "nat \<Rightarrow> nat"

definition advance :: "rng \<Rightarrow> rng" where
  "advance g = (\<lambda>i. g (Suc i))"

definition choice :: "'a list \<Rightarrow> rng \<Rightarrow> error + ('a \<times> rng)" where
  "choice seq g =
     (if seq = [] then Inl IndexError
      else Inr (seq ! (g 0 mod length seq), advance g))"

subsection \<open>Decimal formatting\<close>

definition digit_char :: "nat \<Rightarrow> char" where
  "digit_char d = char_of (48 + d)"

definition digit_val :: "char \<Rightarrow> nat" where
  "digit_val c = of_char c - 48"

fun dec :: "nat \<Rightarrow> string" where
  "dec n = (if n < 10 then [digit_char n] else dec (n div 10) @ [digit_char (n mod 10)])"

declare dec.simps [simp del]

text \<open>
  Python's format specification \<^verbatim>\<open>0Wd\<close>: decimal, padded with zeros after the sign to a
  total width of at least \<open>W\<close>; longer numbers are never truncated.
\<close>

definition zero_pad_d :: "nat \<Rightarrow> int \<Rightarrow> string" where
  "zero_pad_d w n =
     (let sgn = (if n < 0 then ''-'' else '''');
          ds = dec (nat \<bar>n\<bar>)
      in sgn @ replicate (w - length sgn - length ds) (CHR ''0'') @ ds)"

text \<open>
  \<^verbatim>\<open>pattern.format(n)\<close> for the patterns of this program: every replacement field of
  the shape \<^verbatim>\<open>{:0Wd}\<close> (one digit \<open>W\<close>) is replaced by the formatted number, every
  other character is copied.
\<close>

fun py_format :: "string \<Rightarrow> int \<Rightarrow> string" where
  "py_format [] n = []"
| "py_format (c # cs) n =
     (if c = CHR ''{'' \<and> take 2 cs = '':0'' \<and> take 2 (drop 3 cs) = ''d}''
      then zero_pad_d (digit_val (cs ! 2)) n @ py_format (drop 5 cs) n
      else c # py_format cs n)"

section \<open>The fixed tables\<close>

definition TEAMS :: "(string \<times> string list) list" where
  "TEAMS =
    [(''Tigers'', [''John Doe'', ''Amy Smith'', ''Carlos Reyes'', ''Mia Chen'', ''Evan Patel'']),
     (''Hawks'', [''Liam Johnson'', ''Noah Davis'', ''Olivia Lee'', ''Emma Brown'', ''Ava Wilson'']),
     (''Sharks'', [''Mason Clark'', ''Lucas Martinez'', ''Sophia Taylor'', ''Isabella Moore'',
                  ''Mia Anderson''])]"

definition CAMERA_PATTERNS :: "(string \<times> int) list" where
  "CAMERA_PATTERNS =
    [(''IMG_{:04d}.JPG'', 2000),
     (''DSC_{:04d}.JPG'', 5000),
     (''P{:07d}.JPG'', 1000000)]"

section \<open>Camera-style names\<close>

definition next_camera_name :: "int \<Rightarrow> rng \<Rightarrow> error + (string \<times> rng)" where
  "next_camera_name counter g =
     (case choice CAMERA_PATTERNS g of
        Inl e \<Rightarrow> Inl e
      | Inr ((pattern, base), g') \<Rightarrow> Inr (py_format pattern (base + counter), g'))"

text \<open>Successive calls on a sequence of counter values, each drawing from the shared source.\<close>

fun camera_names :: "int list \<Rightarrow> rng \<Rightarrow> error + string list" where
  "camera_names [] g = Inr []"
| "camera_names (c # cs) g =
     (case next_camera_name c g of
        Inl e \<Rightarrow> Inl e
      | Inr (name, g') \<Rightarrow>
          (case camera_names cs g' of
             Inl e \<Rightarrow> Inl e
           | Inr names \<Rightarrow> Inr (name # names)))"

section \<open>Strings\<close>

text \<open>\<^verbatim>\<open>str(n)\<close>, as an f-string renders an integer.\<close>

definition py_str :: "int \<Rightarrow> string" where
  "py_str n = (if n < 0 then ''-'' @ dec (nat (- n)) else dec (nat n))"

text \<open>
  \<^verbatim>\<open>s.split(sep, 1)\<close> for a one-character separator: the parts before and after the
  first separator, or the whole string alone when there is none.
\<close>

definition split_once :: "char \<Rightarrow> string \<Rightarrow> string list" where
  "split_once sep s =
     (if sep \<in> set s
      then [takeWhile (\<lambda>c. c \<noteq> sep) s, tl (dropWhile (\<lambda>c. c \<noteq> sep) s)]
      else [s])"

text \<open>The destructuring \<^verbatim>\<open>a, b = xs\<close> raises \<open>ValueError\<close> unless there are two values.\<close>

fun unpack2 :: "'a list \<Rightarrow> error + ('a \<times> 'a)" where
  "unpack2 [a, b] = Inr (a, b)"
| "unpack2 _ = Inl ValueError"

fun join :: "string \<Rightarrow> string list \<Rightarrow> string" where
  "join sep [] = []"
| "join sep [x] = x"
| "join sep (x # y # ys) = x @ sep @ join sep (y # ys)"

section \<open>The file system\<close>

text \<open>
  A path is the list of its components below the root. \<open>p / name\<close> appends one
  component (every name this program joins is a single relative component without a
  separator).
\<close>

type_synonym path = "string list"

definition truediv :: "path \<Rightarrow> string \<Rightarrow> path" where
  "truediv p name = p @ [name]"

definition path_name :: "path \<Rightarrow> string" where
  "path_name p = (if p = [] then [] else last p)"

definition path_parent :: "path \<Rightarrow> path" where
  "path_parent p = butlast p"

datatype font = TrueType string nat | DefaultFont

text \<open>
  What a rendered image holds in this model: its size and the texts drawn with their
  fonts. The gradient and the text positions are computed in floating point from font
  metrics and are left out.
\<close>

record image =
  img_width :: int
  img_height :: int
  img_title :: "string \<times> font"
  img_subtitle :: "(string \<times> font) option"

text \<open>
  The instructions document is kept as the three values interpolated into its
  otherwise constant text.
\<close>

datatype node = Dir | Jpeg image | Text string | Instructions string string string

type_synonym fs = "path \<rightharpoonup> node"

definition path_exists :: "fs \<Rightarrow> path \<Rightarrow> bool" where
  "path_exists f p = (f p \<noteq> None)"

definition is_file :: "fs \<Rightarrow> path \<Rightarrow> bool" where
  "is_file f p = (case f p of None \<Rightarrow> False | Some Dir \<Rightarrow> False | Some _ \<Rightarrow> True)"

text \<open>\<^verbatim>\<open>shutil.rmtree(p)\<close>: removes the directory and everything below it.\<close>

definition rmtree :: "path \<Rightarrow> fs \<Rightarrow> error + fs" where
  "rmtree p f =
     (case f p of
        None \<Rightarrow> Inl FileNotFoundError
      | Some Dir \<Rightarrow> Inr (\<lambda>q. if prefix p q then None else f q)
      | Some _ \<Rightarrow> Inl NotADirectoryError)"

text \<open>
  \<^verbatim>\<open>p.mkdir(parents=True, exist_ok=True)\<close>: creates the directory and every missing
  ancestor; an existing directory is accepted, a file in the way is an error.
\<close>

definition mkdir_parents :: "path \<Rightarrow> fs \<Rightarrow> error + fs" where
  "mkdir_parents p f =
     (if is_file f p then Inl FileExistsError
      else if \<exists>q \<in> set (prefixes p). is_file f q then Inl NotADirectoryError
      else Inr (\<lambda>q. if prefix q p \<and> f q = None then Some Dir else f q))"

fun mkdir_all :: "path list \<Rightarrow> fs \<Rightarrow> error + fs" where
  "mkdir_all [] f = Inr f"
| "mkdir_all (p # ps) f =
     (case mkdir_parents p f of Inl e \<Rightarrow> Inl e | Inr f' \<Rightarrow> mkdir_all ps f')"

text \<open>Opening a path for writing and storing the content, replacing an existing file.\<close>

definition write_file :: "path \<Rightarrow> node \<Rightarrow> fs \<Rightarrow> error + fs" where
  "write_file p content f =
     (if p = [] then Inl IsADirectoryError
      else case f (butlast p) of
        None \<Rightarrow> Inl FileNotFoundError
      | Some Dir \<Rightarrow>
          (case f p of
             Some Dir \<Rightarrow> Inl IsADirectoryError
           | _ \<Rightarrow> Inr (f(p \<mapsto> content)))
      | Some _ \<Rightarrow> Inl NotADirectoryError)"

definition listdir :: "fs \<Rightarrow> path \<Rightarrow> string set" where
  "listdir f p = {name. f (p @ [name]) \<noteq> None}"

text \<open>Every entry lies in a directory.\<close>

definition wf_fs :: "fs \<Rightarrow> bool" where
  "wf_fs f = (\<forall>p name. f (p @ [name]) \<noteq> None \<longrightarrow> f p = Some Dir)"

section \<open>The environment\<close>

text \<open>
  What the host decides: where a base path string leads after
  \<^verbatim>\<open>Path(base_path).expanduser()\<close> (which raises when no home directory can be
  determined), what \<^verbatim>\<open>os.path.expanduser\<close> returns, and whether
  \<^verbatim>\<open>ImageFont.truetype\<close> finds a font.
\<close>

record env =
  expanduser :: "string \<Rightarrow> error + path"
  os_path_expanduser :: "string \<Rightarrow> string"
  truetype :: "string \<Rightarrow> nat \<Rightarrow> error + font"

section \<open>Image rendering\<close>

definition load_default :: font where
  "load_default = DefaultFont"

text \<open>The \<^verbatim>\<open>try\<close> block of \<open>create_test_image\<close> with its \<^verbatim>\<open>except Exception\<close> handler.\<close>

definition resolve_fonts :: "env \<Rightarrow> error + (font \<times> font)" where
  "resolve_fonts ev =
     (let handler = (\<lambda>e. if is_Exception e then Inr (load_default, load_default) else Inl e)
      in case truetype ev ''/System/Library/Fonts/SFNS.ttf'' 48 of
           Inl e \<Rightarrow> handler e
         | Inr font_title \<Rightarrow>
             (case truetype ev ''/System/Library/Fonts/SFNS.ttf'' 28 of
                Inl e \<Rightarrow> handler e
              | Inr font_sub \<Rightarrow> Inr (font_title, font_sub)))"

definition create_test_image ::
  "env \<Rightarrow> path \<Rightarrow> int \<Rightarrow> int \<Rightarrow> string \<Rightarrow> string \<Rightarrow> fs \<Rightarrow> error + fs" where
  "create_test_image ev p width height title subtitle f =
     (case resolve_fonts ev of
        Inl e \<Rightarrow> Inl e
      | Inr (font_title, font_sub) \<Rightarrow>
          write_file p
            (Jpeg \<lparr>img_width = width, img_height = height,
                   img_title = (title, font_title),
                   img_subtitle = (if subtitle \<noteq> [] then Some (subtitle, font_sub) else None)\<rparr>)
            f)"

section \<open>The metadata table\<close>

text \<open>
  \<^verbatim>\<open>csv.writer(f).writerow(r)\<close> in the default dialect: fields joined by commas, a field
  holding a comma, a double quote, a carriage return or a line feed is enclosed in double
  quotes with its double quotes doubled, and the row ends with CR LF.
\<close>

definition csv_field :: "string \<Rightarrow> string" where
  "csv_field x =
     (if \<exists>c \<in> set x. c \<in> {CHR '','', CHR 0x22, CHR 0x0D, CHR 0x0A}
      then [CHR 0x22] @ concat (map (\<lambda>c. if c = CHR 0x22 then [c, c] else [c]) x) @ [CHR 0x22]
      else x)"

definition writerow :: "string list \<Rightarrow> string" where
  "writerow r = join '','' (map csv_field r) @ [CHR 0x0D, CHR 0x0A]"

definition csv_header :: "string list" where
  "csv_header = [''original'', ''first'', ''last'', ''col4'', ''col5'', ''col6'', ''team'', ''group'']"

definition csv_text :: "string list list \<Rightarrow> string" where
  "csv_text rs = writerow csv_header @ concat (map writerow rs)"

section \<open>Building the job\<close>

text \<open>
  The variables the roster loops update, with the file system. \<open>poses\<close> is a history
  variable: the values the local \<open>pose_count\<close> has taken, in order. The source does not
  keep them, and nothing else depends on the field.
\<close>

record state =
  counter :: int
  RANDOM :: rng
  rows :: "string list list"
  created_files :: "string list"
  poses :: "int list"
  files :: fs

text \<open>The loop over \<^verbatim>\<open>range(1, pose_count + 1)\<close>.\<close>

fun pose_loop ::
  "env \<Rightarrow> path \<Rightarrow> string \<Rightarrow> string \<Rightarrow> string \<Rightarrow> string \<Rightarrow> int list \<Rightarrow> state \<Rightarrow> error + state"
where
  "pose_loop ev extracted team player first last' [] st = Inr st"
| "pose_loop ev extracted team player first last' (pose_idx # rest) st =
     (case next_camera_name (counter st) (RANDOM st) of
        Inl e \<Rightarrow> Inl e
      | Inr (cam_name, g) \<Rightarrow>
          (let img_path = truediv extracted cam_name;
               title = team;
               subtitle = player @ '' - Pose '' @ py_str pose_idx
           in case create_test_image ev img_path 1600 1200 title subtitle (files st) of
                Inl e \<Rightarrow> Inl e
              | Inr f \<Rightarrow>
                  pose_loop ev extracted team player first last' rest
                    (st\<lparr>counter := counter st + 1, RANDOM := g,
                        created_files := created_files st @ [cam_name],
                        rows := rows st @ [[cam_name, first, last', '''', '''', '''', team, team]],
                        files := f\<rparr>)))"

text \<open>The loop over the players of one team.\<close>

fun player_loop :: "env \<Rightarrow> path \<Rightarrow> string \<Rightarrow> string list \<Rightarrow> state \<Rightarrow> error + state" where
  "player_loop ev extracted team [] st = Inr st"
| "player_loop ev extracted team (player # rest) st =
     (case unpack2 (split_once (CHR '' '') player) of
        Inl e \<Rightarrow> Inl e
      | Inr (first, last') \<Rightarrow>
          (case choice [2, 2, 3, 4] (RANDOM st) of
             Inl e \<Rightarrow> Inl e
           | Inr (pose_count, g) \<Rightarrow>
               (case pose_loop ev extracted team player first last' [1..pose_count]
                       (st\<lparr>RANDOM := g, poses := poses st @ [pose_count]\<rparr>) of
                  Inl e \<Rightarrow> Inl e
                | Inr st' \<Rightarrow> player_loop ev extracted team rest st')))"

text \<open>The loop over the team table.\<close>

fun team_loop :: "env \<Rightarrow> path \<Rightarrow> (string \<times> string list) list \<Rightarrow> state \<Rightarrow> error + state" where
  "team_loop ev extracted [] st = Inr st"
| "team_loop ev extracted ((team, players) # rest) st =
     (case player_loop ev extracted team players st of
        Inl e \<Rightarrow> Inl e
      | Inr st' \<Rightarrow> team_loop ev extracted rest st')"

text \<open>
  What a completed run leaves: the file system, and the final values of the function's
  local variables.
\<close>

record job =
  job_path :: path
  job_rows :: "string list list"
  job_created_files :: "string list"
  job_poses :: "int list"
  job_conflict_newname :: string
  job_invalid_name :: string
  job_files :: fs

definition job_name :: string where
  "job_name = ''2025_Youth_Baseball_League_TEST''"

definition create_sports_test_job :: "env \<Rightarrow> string \<Rightarrow> rng \<Rightarrow> fs \<Rightarrow> error + job" where
  "create_sports_test_job ev base_path g f0 =
     (case expanduser ev base_path of
        Inl e \<Rightarrow> Inl e
      | Inr base \<Rightarrow>
     (let jp = truediv base job_name in
      case (if path_exists f0 jp then rmtree jp f0 else Inr f0) of
        Inl e \<Rightarrow> Inl e
      | Inr f1 \<Rightarrow>
     (let extracted = truediv jp ''Extracted'';
          output = truediv jp ''Output'';
          finished = truediv jp ''Finished Teams'';
          for_upload = truediv jp ''For Upload''
      in case mkdir_all [extracted, output, finished, for_upload] f1 of
        Inl e \<Rightarrow> Inl e
      | Inr f2 \<Rightarrow>
     (let csv_path = truediv jp ''roster.csv'' in
      case team_loop ev extracted TEAMS
             \<lparr>counter = 1, RANDOM = g, rows = [], created_files = [], poses = [], files = f2\<rparr> of
        Inl e \<Rightarrow> Inl e
      | Inr st \<Rightarrow>
     (case TEAMS of
        [] \<Rightarrow> Inl IndexError
      | (conflict_team, players) # _ \<Rightarrow>
     (case players of
        [] \<Rightarrow> Inl IndexError
      | conflict_player # _ \<Rightarrow>
     (case unpack2 (split_once (CHR '' '') conflict_player) of
        Inl e \<Rightarrow> Inl e
      | Inr (first, last') \<Rightarrow>
     (let conflict_newname = conflict_team @ ''_'' @ first @ '' '' @ last' @ ''_1.JPG'';
          conflict_path = truediv extracted conflict_newname
      in case create_test_image ev conflict_path 1600 1200 conflict_team
                (conflict_player @ '' (Existing)'') (files st) of
        Inl e \<Rightarrow> Inl e
      | Inr f3 \<Rightarrow>
     (let invalid_name = ''IMG:INVALID<>NAME.JPG'' in
      case create_test_image ev (truediv extracted invalid_name) 1600 1200
                ''Invalid'' ''Filename'' f3 of
        Inl e \<Rightarrow> Inl e
      | Inr f4 \<Rightarrow>
     (let rows' = rows st @ take 5 (rows st) in
      case write_file csv_path (Text (csv_text rows')) f4 of
        Inl e \<Rightarrow> Inl e
      | Inr f5 \<Rightarrow>
     (let readme = truediv jp ''TEST_INSTRUCTIONS.md'' in
      case write_file readme
             (Instructions (join '', '' (map fst TEAMS)) conflict_newname invalid_name) f5 of
        Inl e \<Rightarrow> Inl e
      | Inr f6 \<Rightarrow>
          Inr \<lparr>job_path = jp, job_rows = rows', job_created_files = created_files st,
               job_poses = poses st, job_conflict_newname = conflict_newname,
               job_invalid_name = invalid_name, job_files = f6\<rparr>)))))))))))"

text \<open>
  \<open>main\<close>: the only option is \<^verbatim>\<open>--path\<close>; the exit status is 1 when the job raised an
  \<open>Exception\<close>, 0 otherwise.
\<close>

definition main :: "env \<Rightarrow> string option \<Rightarrow> rng \<Rightarrow> fs \<Rightarrow> error + (int \<times> job option)" where
  "main ev arg g f0 =
     (let p = (case arg of None \<Rightarrow> os_path_expanduser ev ''~/Desktop'' | Some a \<Rightarrow> a)
      in case create_sports_test_job ev p g f0 of
           Inl e \<Rightarrow> (if is_Exception e then Inr (1, None) else Inl e)
         | Inr j \<Rightarrow> Inr (0, Some j))"

section \<open>Definitions used in the proofs\<close>

text \<open>Reading a decimal numeral back.\<close>

definition str_val :: "string \<Rightarrow> nat" where
  "str_val s = foldl (\<lambda>a c. 10 * a + digit_val c) 0 s"

definition parse_d :: "string \<Rightarrow> int" where
  "parse_d s =
     (case s of
        [] \<Rightarrow> 0
      | c # r \<Rightarrow> if c = CHR ''-'' then - int (str_val r) else int (str_val s))"

text \<open>The name \<open>next_camera_name\<close> returns when the source yields the number \<open>d\<close>.\<close>

definition pattern_name :: "nat \<Rightarrow> int \<Rightarrow> string" where
  "pattern_name d c =
     (case CAMERA_PATTERNS ! (d mod length CAMERA_PATTERNS) of
        (pattern, base) \<Rightarrow> py_format pattern (base + c))"

fun draw_names :: "int list \<Rightarrow> rng \<Rightarrow> string list" where
  "draw_names [] g = []"
| "draw_names (c # cs) g = pattern_name (g 0) c # draw_names cs (advance g)"

text \<open>A host without the preferred font, where a base path names a directory at the root.\<close>

definition no_fonts :: env where
  "no_fonts = \<lparr>expanduser = (\<lambda>s. Inr [s]), os_path_expanduser = (\<lambda>s. s),
               truetype = (\<lambda>p n. Inl OSError)\<rparr>"

text \<open>
  The roster as a function of the randomness source alone: the shots (camera name, team,
  player, pose index) the loops emit from counter \<open>c\<close> and source \<open>g\<close>, the pose
  counts they draw, and the source they leave behind.
\<close>

type_synonym shot = "string \<times> string \<times> string \<times> int"

fun pose_shots :: "string \<Rightarrow> string \<Rightarrow> int list \<Rightarrow> int \<Rightarrow> rng \<Rightarrow> shot list" where
  "pose_shots team player [] c g = []"
| "pose_shots team player (k # ks) c g =
     (pattern_name (g 0) c, team, player, k) # pose_shots team player ks (c + 1) (advance g)"

definition drawn_pose_count :: "rng \<Rightarrow> int" where
  "drawn_pose_count g = [2, 2, 3, 4] ! (g 0 mod 4)"

definition after_player :: "rng \<Rightarrow> rng" where
  "after_player g = (advance ^^ Suc (nat (drawn_pose_count g))) g"

fun player_shots :: "string \<Rightarrow> string list \<Rightarrow> int \<Rightarrow> rng \<Rightarrow> shot list" where
  "player_shots team [] c g = []"
| "player_shots team (p # ps) c g =
     pose_shots team p [1..drawn_pose_count g] c (advance g)
     @ player_shots team ps (c + drawn_pose_count g) (after_player g)"

fun player_poses :: "string list \<Rightarrow> rng \<Rightarrow> int list" where
  "player_poses [] g = []"
| "player_poses (p # ps) g = drawn_pose_count g # player_poses ps (after_player g)"

fun after_players :: "string list \<Rightarrow> rng \<Rightarrow> rng" where
  "after_players [] g = g"
| "after_players (p # ps) g = after_players ps (after_player g)"

fun team_shots :: "(string \<times> string list) list \<Rightarrow> int \<Rightarrow> rng \<Rightarrow> shot list" where
  "team_shots [] c g = []"
| "team_shots ((team, players) # rest) c g =
     player_shots team players c g
     @ team_shots rest (c + sum_list (player_poses players g)) (after_players players g)"

fun team_poses :: "(string \<times> string list) list \<Rightarrow> rng \<Rightarrow> int list" where
  "team_poses [] g = []"
| "team_poses ((team, players) # rest) g =
     player_poses players g @ team_poses rest (after_players players g)"

fun after_teams :: "(string \<times> string list) list \<Rightarrow> rng \<Rightarrow> rng" where
  "after_teams [] g = g"
| "after_teams ((team, players) # rest) g = after_teams rest (after_players players g)"

text \<open>The row and the image of a shot, and the file system after writing images.\<close>

definition shot_row :: "shot \<Rightarrow> string list" where
  "shot_row s =
     (case s of (cam_name, team, player, k) \<Rightarrow>
        (case unpack2 (split_once (CHR '' '') player) of
           Inl e \<Rightarrow> []
         | Inr (first, last') \<Rightarrow> [cam_name, first, last', [], [], [], team, team]))"

definition shot_image :: "font \<times> font \<Rightarrow> shot \<Rightarrow> node" where
  "shot_image fonts s =
     (case s of (cam_name, team, player, k) \<Rightarrow>
        Jpeg \<lparr>img_width = 1600, img_height = 1200, img_title = (team, fst fonts),
              img_subtitle = Some (player @ '' - Pose '' @ py_str k, snd fonts)\<rparr>)"

fun put_shots :: "path \<Rightarrow> font \<times> font \<Rightarrow> shot list \<Rightarrow> fs \<Rightarrow> fs" where
  "put_shots d fonts [] f = f"
| "put_shots d fonts (s # ss) f = put_shots d fonts ss (f(d @ [fst s] \<mapsto> shot_image fonts s))"

definition roster_rows :: "rng \<Rightarrow> string list list" where
  "roster_rows g = map shot_row (team_shots TEAMS 1 g)"

definition fixture_image :: "font \<times> font \<Rightarrow> string \<Rightarrow> string \<Rightarrow> node" where
  "fixture_image fonts title subtitle =
     Jpeg \<lparr>img_width = 1600, img_height = 1200, img_title = (title, fst fonts),
           img_subtitle = Some (subtitle, snd fonts)\<rparr>"

text \<open>Camera names of consecutive counter values, starting at \<open>c\<close>.\<close>

fun numbered :: "int \<Rightarrow> string list \<Rightarrow> bool" where
  "numbered c [] = True"
| "numbered c (x # xs) = ((\<exists>d. x = pattern_name d c) \<and> numbered (c + 1) xs)"

text \<open>A directory in which a file of any name can be written.\<close>

definition writable :: "fs \<Rightarrow> path \<Rightarrow> bool" where
  "writable f d = (f d = Some Dir \<and> (\<forall>n. f (d @ [n]) \<noteq> Some Dir))"

text \<open>The job built on an empty disk when every draw of the source is 0.\<close>

definition demo :: job where
  "demo = projr (create_sports_test_job no_fonts ''out'' (\<lambda>_. 0) Map.empty)"

text \<open>
  A second host: the preferred font is installed, and the disk already holds a fixture
  of the same name with a file from an earlier run.
\<close>

definition with_fonts :: env where
  "with_fonts = \<lparr>expanduser = (\<lambda>s. Inr [s]), os_path_expanduser = (\<lambda>s. s),
                 truetype = (\<lambda>p n. Inr (TrueType p n))\<rparr>"

definition old_disk :: fs where
  "old_disk = [[] \<mapsto> Dir, [''out''] \<mapsto> Dir, [''out'', job_name] \<mapsto> Dir,
               [''out'', job_name, ''Extracted''] \<mapsto> Dir,
               [''out'', job_name, ''Extracted'', ''IMG_0001.JPG''] \<mapsto> Text ''old'']"

text \<open>
  The order the specification gives to the roster: teams in table order, within a team
  the players in table order, within a player the pose indices from 1 to the player's
  pose count. \<open>counts\<close> holds one pose count per player, in that order.
\<close>

fun roster_order :: "(string \<times> string list) list \<Rightarrow> int list \<Rightarrow> (string \<times> string \<times> int) list" where
  "roster_order [] counts = []"
| "roster_order ((team, players) # rest) counts =
     concat (map (\<lambda>(player, n). map (\<lambda>k. (team, player, k)) [1..n]) (zip players counts))
     @ roster_order rest (drop (length players) counts)"

text \<open>
  What the run emitted for its \<open>i\<close>-th shot: team (column 7), first and last name
  (columns 1 and 2) of the \<open>i\<close>-th row, and the subtitle of the image stored under the
  row's column 0 in \<open>Extracted\<close>, which carries the pose index.
\<close>

definition shot_record :: "job \<Rightarrow> nat \<Rightarrow> string \<times> string \<times> string \<times> string option" where
  "shot_record j i =
     (let r = job_rows j ! i
      in (r ! 7, r ! 1, r ! 2,
          case job_files j (truediv (truediv (job_path j) ''Extracted'') (r ! 0)) of
            Some (Jpeg im) \<Rightarrow> map_option fst (img_subtitle im)
          | _ \<Rightarrow> None))"

text \<open>The record of pose \<open>k\<close> of a player of a team.\<close>

definition record_of :: "string \<times> string \<times> int \<Rightarrow> string \<times> string \<times> string \<times> string option" where
  "record_of s =
     (case s of (team, player, k) \<Rightarrow>
        (case unpack2 (split_once (CHR '' '') player) of
           Inl e \<Rightarrow> (team, [], [], None)
         | Inr (first, last') \<Rightarrow> (team, first, last', Some (player @ '' - Pose '' @ py_str k))))"

text \<open>
  Modelled from the spec: the renaming rule of the application that consumes the fixture
  is not among the sources. In the specification's words the new name is
  \<^verbatim>\<open>team_firstName lastName_poseIndex.extension\<close>; the extension is that of the
  original file, the characters after its last dot.
\<close>

definition rename_rule :: "string \<Rightarrow> string \<Rightarrow> string \<Rightarrow> int \<Rightarrow> string \<Rightarrow> string" where
  "rename_rule team first last' pose_index ext =
     team @ ''_'' @ first @ '' '' @ last' @ ''_'' @ py_str pose_index @ ''.'' @ ext"

definition extension :: "string \<Rightarrow> string" where
  "extension name = rev (takeWhile (\<lambda>c. c \<noteq> CHR ''.'') (rev name))"


section \<open>Decimal numerals are read back\<close>

lemma digit_val_digit_char: "d < 10 \<Longrightarrow> digit_val (digit_char d) = d"
  by (simp add: digit_val_def digit_char_def)

lemma digit_char_not_minus: "d < 10 \<Longrightarrow> digit_char d \<noteq> CHR ''-''"
  by (auto simp: digit_char_def dest!: arg_cong [where f = "of_char :: char \<Rightarrow> nat"])

lemma str_val_snoc: "str_val (s @ [c]) = 10 * str_val s + digit_val c"
  by (simp add: str_val_def)

lemma str_val_dec: "str_val (dec n) = n"
proof (induction n rule: dec.induct)
  case (1 n)
  show ?case
  proof (cases "n < 10")
    case True
    then show ?thesis
      by (simp add: dec.simps [of n] digit_val_digit_char str_val_def)
  next
    case False
    with 1 have "str_val (dec (n div 10)) = n div 10" by simp
    with False show ?thesis
      by (simp add: dec.simps [of n] digit_val_digit_char str_val_snoc)
  qed
qed

lemma minus_notin_dec: "CHR ''-'' \<notin> set (dec n)"
proof (induction n rule: dec.induct)
  case (1 n)
  show ?case
  proof (cases "n < 10")
    case True
    then show ?thesis
      using digit_char_not_minus [of n] by (auto simp: dec.simps [of n])
  next
    case False
    with 1 have "CHR ''-'' \<notin> set (dec (n div 10))" by simp
    moreover have "digit_char (n mod 10) \<noteq> CHR ''-''"
      by (rule digit_char_not_minus) simp
    ultimately show ?thesis
      using False by (auto simp: dec.simps [of n])
  qed
qed

lemma dec_nonempty: "dec n \<noteq> []"
  by (subst dec.simps) simp

lemma str_val_zeros: "str_val (replicate k (CHR ''0'') @ s) = str_val s"
proof -
  have "foldl (\<lambda>a c. 10 * a + digit_val c) 0 (replicate k (CHR ''0'')) = 0"
    by (induction k) (simp_all add: digit_val_def)
  then show ?thesis by (simp add: str_val_def)
qed

lemma parse_d_zero_pad: "parse_d (zero_pad_d w n) = n"
proof (cases "n < 0")
  case True
  then show ?thesis
    by (simp add: zero_pad_d_def parse_d_def str_val_zeros str_val_dec Let_def)
next
  case False
  let ?s = "replicate (w - length (dec (nat n))) (CHR ''0'') @ dec (nat n)"
  have ne: "?s \<noteq> []" using dec_nonempty by simp
  have "CHR ''-'' \<notin> set ?s" using minus_notin_dec by auto
  with ne have "hd ?s \<noteq> CHR ''-''" using hd_in_set by metis
  with ne have "parse_d ?s = int (str_val ?s)"
    by (cases ?s) (simp_all add: parse_d_def)
  with False show ?thesis
    by (simp add: zero_pad_d_def Let_def str_val_zeros str_val_dec)
qed

lemma zero_pad_d_inj: "zero_pad_d w n = zero_pad_d w' m \<Longrightarrow> n = m"
  by (metis parse_d_zero_pad)

section \<open>Camera names\<close>

lemma fmt_img: "py_format ''IMG_{:04d}.JPG'' n = ''IMG_'' @ zero_pad_d 4 n @ ''.JPG''"
  by (simp add: digit_val_def)

lemma fmt_dsc: "py_format ''DSC_{:04d}.JPG'' n = ''DSC_'' @ zero_pad_d 4 n @ ''.JPG''"
  by (simp add: digit_val_def)

lemma fmt_p: "py_format ''P{:07d}.JPG'' n = ''P'' @ zero_pad_d 7 n @ ''.JPG''"
  by (simp add: digit_val_def)

lemma next_camera_name_eq: "next_camera_name c g = Inr (pattern_name (g 0) c, advance g)"
  by (simp add: next_camera_name_def choice_def pattern_name_def CAMERA_PATTERNS_def
      split: prod.splits)

lemma pattern_name_cases:
  "pattern_name d c = ''IMG_'' @ zero_pad_d 4 (2000 + c) @ ''.JPG''
   \<or> pattern_name d c = ''DSC_'' @ zero_pad_d 4 (5000 + c) @ ''.JPG''
   \<or> pattern_name d c = ''P'' @ zero_pad_d 7 (1000000 + c) @ ''.JPG''"
proof -
  have "d mod 3 = 0 \<or> d mod 3 = 1 \<or> d mod 3 = 2" by arith
  then show ?thesis
    by (auto simp: pattern_name_def CAMERA_PATTERNS_def fmt_img fmt_dsc fmt_p
        simp del: py_format.simps)
qed

lemma pattern_name_inj: "pattern_name d c = pattern_name d' c' \<Longrightarrow> c = c'"
  using pattern_name_cases [of d c] pattern_name_cases [of d' c']
  by (auto dest!: zero_pad_d_inj)

lemma camera_names_eq: "camera_names cs g = Inr (draw_names cs g)"
  by (induction cs arbitrary: g) (simp_all add: next_camera_name_eq)

lemma draw_names_counter:
  "x \<in> set (draw_names cs g) \<Longrightarrow> \<exists>d. \<exists>c \<in> set cs. x = pattern_name d c"
  by (induction cs arbitrary: g) fastforce+

lemma draw_names_distinct: "sorted_wrt (<) cs \<Longrightarrow> distinct (draw_names cs g)"
proof (induction cs arbitrary: g)
  case Nil
  then show ?case by simp
next
  case (Cons c cs)
  have "pattern_name (g 0) c \<notin> set (draw_names cs (advance g))"
  proof
    assume "pattern_name (g 0) c \<in> set (draw_names cs (advance g))"
    then obtain d c' where "c' \<in> set cs" and "pattern_name (g 0) c = pattern_name d c'"
      using draw_names_counter by blast
    then have "c \<in> set cs" using pattern_name_inj by blast
    with Cons.prems show False by auto
  qed
  with Cons show ?case by simp
qed

text \<open>
  C1. Called on a strictly increasing sequence of counter values, \<open>next_camera_name\<close>
  always returns, and the names it returns are pairwise distinct, whatever pattern the
  randomness source selects at each call.
\<close>

theorem camera_names_pairwise_distinct:
  "sorted_wrt (<) cs \<Longrightarrow>
     \<exists>names. camera_names cs g = Inr names \<and> length names = length cs \<and> distinct names"
proof -
  assume "sorted_wrt (<) cs"
  then have "distinct (draw_names cs g)" by (rule draw_names_distinct)
  moreover have "length (draw_names cs g) = length cs"
    by (induction cs arbitrary: g) simp_all
  ultimately show ?thesis using camera_names_eq by blast
qed

theorem camera_names_pairwise_distinct_witness:
  "sorted_wrt (<) [1, 2, 3 :: int] \<and>
   (\<exists>names. camera_names [1, 2, 3] (\<lambda>i. i) = Inr names \<and> length names = 3 \<and> distinct names)"
  using camera_names_pairwise_distinct [of "[1, 2, 3]" "\<lambda>i. i"]
  by (simp del: camera_names.simps add: numeral_3_eq_3)

section \<open>Font resolution\<close>

text \<open>
  C8. Font resolution never raises: when loading the preferred font fails (with any
  exception of class \<open>Exception\<close>, which is what the library raises for a missing or
  unreadable font), both the title and the subtitle font are the built-in default, and
  rendering goes on to write the image; the only errors of \<open>create_test_image\<close> are those
  of the file write.
\<close>

theorem font_resolution_never_raises:
  assumes "\<And>size e. truetype ev ''/System/Library/Fonts/SFNS.ttf'' size = Inl e \<Longrightarrow> is_Exception e"
  shows "\<exists>font_title font_sub.
           resolve_fonts ev = Inr (font_title, font_sub)
         \<and> ((\<exists>e. truetype ev ''/System/Library/Fonts/SFNS.ttf'' 48 = Inl e
               \<or> truetype ev ''/System/Library/Fonts/SFNS.ttf'' 28 = Inl e)
              \<longrightarrow> font_title = load_default \<and> font_sub = load_default)
         \<and> create_test_image ev p w h title subtitle f =
             write_file p
               (Jpeg \<lparr>img_width = w, img_height = h, img_title = (title, font_title),
                      img_subtitle = (if subtitle \<noteq> [] then Some (subtitle, font_sub) else None)\<rparr>) f"
  using assms
  by (auto simp: resolve_fonts_def create_test_image_def Let_def split: sum.splits)

theorem font_resolution_never_raises_witness:
  "resolve_fonts no_fonts = Inr (load_default, load_default)
   \<and> create_test_image no_fonts [''d'', ''a.JPG''] 1600 1200 ''T'' ''S'' [[] \<mapsto> Dir, [''d''] \<mapsto> Dir] =
       Inr [[] \<mapsto> Dir, [''d''] \<mapsto> Dir,
            [''d'', ''a.JPG''] \<mapsto> Jpeg \<lparr>img_width = 1600, img_height = 1200,
               img_title = (''T'', load_default), img_subtitle = Some (''S'', load_default)\<rparr>]"
  using font_resolution_never_raises [of no_fonts "[''d'', ''a.JPG'']" 1600 1200 "''T''" "''S''"
      "[[] \<mapsto> Dir, [''d''] \<mapsto> Dir]"]
  by (auto simp: no_fonts_def write_file_def)

section \<open>The player table\<close>

text \<open>
  C10. Every player name of the team table contains a space, and splitting it on the
  first space gives exactly two parts, a non-empty first name and a non-empty last name:
  the two-element destructuring never raises.
\<close>

theorem player_names_split:
  "\<forall>(team, players) \<in> set TEAMS. \<forall>player \<in> set players.
     CHR '' '' \<in> set player
   \<and> (\<exists>first last'. unpack2 (split_once (CHR '' '') player) = Inr (first, last')
         \<and> first \<noteq> [] \<and> last' \<noteq> [] \<and> player = first @ '' '' @ last')"
  by (simp add: TEAMS_def split_once_def)

theorem player_names_split_witness:
  "(''Tigers'', [''John Doe'', ''Amy Smith'', ''Carlos Reyes'', ''Mia Chen'', ''Evan Patel'']) \<in> set TEAMS
   \<and> unpack2 (split_once (CHR '' '') ''John Doe'') = Inr (''John'', ''Doe'')"
  using player_names_split by (simp add: TEAMS_def split_once_def)

lemma create_test_image_Inr:
  "create_test_image ev p w h title subtitle f = Inr f' \<Longrightarrow>
     \<exists>fonts. resolve_fonts ev = Inr fonts \<and>
       f' = f(p \<mapsto> Jpeg \<lparr>img_width = w, img_height = h, img_title = (title, fst fonts),
               img_subtitle = (if subtitle \<noteq> [] then Some (subtitle, snd fonts) else None)\<rparr>)"
  by (auto simp: create_test_image_def write_file_def split: sum.splits option.splits node.splits if_splits)

lemma pose_loop_Inr:
  assumes "pose_loop ev ex team player first last' ks st = Inr st'"
    and "resolve_fonts ev = Inr fonts"
    and "unpack2 (split_once (CHR '' '') player) = Inr (first, last')"
  shows "counter st' = counter st + int (length ks)
       \<and> RANDOM st' = (advance ^^ length ks) (RANDOM st)
       \<and> rows st' = rows st @ map shot_row (pose_shots team player ks (counter st) (RANDOM st))
       \<and> created_files st' = created_files st @ map fst (pose_shots team player ks (counter st) (RANDOM st))
       \<and> poses st' = poses st
       \<and> files st' = put_shots ex fonts (pose_shots team player ks (counter st) (RANDOM st)) (files st)"
  using assms
proof (induction ks arbitrary: st)
  case Nil
  then show ?case by simp
next
  case (Cons k ks)
  from Cons.prems(1) obtain f where
    img: "create_test_image ev (truediv ex (pattern_name (RANDOM st 0) (counter st))) 1600 1200 team
            (player @ '' - Pose '' @ py_str k) (files st) = Inr f"
    and rest: "pose_loop ev ex team player first last' ks
       (st\<lparr>counter := counter st + 1, RANDOM := advance (RANDOM st),
           created_files := created_files st @ [pattern_name (RANDOM st 0) (counter st)],
           rows := rows st @ [[pattern_name (RANDOM st 0) (counter st), first, last', [], [], [], team, team]],
           files := f\<rparr>) = Inr st'"
    by (auto simp: next_camera_name_eq Let_def split: sum.splits)
  from create_test_image_Inr [OF img] Cons.prems(2)
  have f: "f = (files st)(ex @ [pattern_name (RANDOM st 0) (counter st)] \<mapsto>
      shot_image fonts (pattern_name (RANDOM st 0) (counter st), team, player, k))"
    by (auto simp: shot_image_def truediv_def)
  note ih = Cons.IH [OF rest [unfolded f] Cons.prems(2,3)]
  from ih Cons.prems(3) show ?case
    by (simp add: shot_row_def funpow_swap1 fun_upd_def)
qed

lemma choice_poses: "choice [2, 2, 3, 4 :: int] g = Inr (drawn_pose_count g, advance g)"
  by (simp add: choice_def drawn_pose_count_def)

lemma drawn_pose_count_range: "drawn_pose_count g \<in> {2, 3, 4}"
proof -
  have "g 0 mod 4 = 0 \<or> g 0 mod 4 = 1 \<or> g 0 mod 4 = 2 \<or> g 0 mod 4 = 3" by arith
  then show ?thesis by (auto simp: drawn_pose_count_def)
qed

lemma length_pose_shots: "length (pose_shots team player ks c g) = length ks"
  by (induction ks arbitrary: c g) simp_all

lemma length_upto_pose: "length [1..drawn_pose_count g] = nat (drawn_pose_count g)"
  by simp

lemma put_shots_append:
  "put_shots d fonts (xs @ ys) f = put_shots d fonts ys (put_shots d fonts xs f)"
  by (induction xs arbitrary: f) simp_all

lemma player_loop_Inr:
  assumes "player_loop ev ex team players st = Inr st'"
    and "resolve_fonts ev = Inr fonts"
  shows "counter st' = counter st + sum_list (player_poses players (RANDOM st))
       \<and> RANDOM st' = after_players players (RANDOM st)
       \<and> rows st' = rows st @ map shot_row (player_shots team players (counter st) (RANDOM st))
       \<and> created_files st' = created_files st @ map fst (player_shots team players (counter st) (RANDOM st))
       \<and> poses st' = poses st @ player_poses players (RANDOM st)
       \<and> files st' = put_shots ex fonts (player_shots team players (counter st) (RANDOM st)) (files st)"
  using assms
proof (induction players arbitrary: st)
  case Nil
  then show ?case by simp
next
  case (Cons p ps)
  let ?n = "drawn_pose_count (RANDOM st)"
  let ?st1 = "st\<lparr>RANDOM := advance (RANDOM st), poses := poses st @ [?n]\<rparr>"
  from Cons.prems(1) obtain first last' st2 where
    sp: "unpack2 (split_once (CHR '' '') p) = Inr (first, last')"
    and pl: "pose_loop ev ex team p first last' [1..?n] ?st1 = Inr st2"
    and rest: "player_loop ev ex team ps st2 = Inr st'"
    by (auto simp: choice_poses split: sum.splits)
  note a = pose_loop_Inr [OF pl Cons.prems(2) sp]
  note b = Cons.IH [OF rest Cons.prems(2)]
  have n0: "0 \<le> ?n" using drawn_pose_count_range [of "RANDOM st"] by auto
  from a have r2: "RANDOM st2 = after_player (RANDOM st)"
    by (simp add: after_player_def funpow_swap1)
  from a n0 have c2: "counter st2 = counter st + ?n" by simp
  from a b r2 c2 show ?case
    by (simp add: put_shots_append)
qed

lemma team_loop_Inr:
  assumes "team_loop ev ex teams st = Inr st'"
    and "resolve_fonts ev = Inr fonts"
  shows "counter st' = counter st + sum_list (team_poses teams (RANDOM st))
       \<and> RANDOM st' = after_teams teams (RANDOM st)
       \<and> rows st' = rows st @ map shot_row (team_shots teams (counter st) (RANDOM st))
       \<and> created_files st' = created_files st @ map fst (team_shots teams (counter st) (RANDOM st))
       \<and> poses st' = poses st @ team_poses teams (RANDOM st)
       \<and> files st' = put_shots ex fonts (team_shots teams (counter st) (RANDOM st)) (files st)"
  using assms
proof (induction teams arbitrary: st)
  case Nil
  then show ?case by simp
next
  case (Cons t ts)
  obtain team players where t: "t = (team, players)" by (cases t)
  from Cons.prems(1) t obtain st1 where
    pl: "player_loop ev ex team players st = Inr st1"
    and rest: "team_loop ev ex ts st1 = Inr st'"
    by (auto split: sum.splits)
  note a = player_loop_Inr [OF pl Cons.prems(2)]
  note b = Cons.IH [OF rest Cons.prems(2)]
  from a b t show ?case
    by (simp add: put_shots_append)
qed

lemma write_file_Inr: "write_file p c f = Inr f' \<Longrightarrow> f' = f(p \<mapsto> c)"
  by (auto simp: write_file_def split: option.splits node.splits if_splits)

lemma conflict_player_eval:
  "(case TEAMS of [] \<Rightarrow> Inl IndexError
    | (conflict_team, players) # rest \<Rightarrow>
        (case players of [] \<Rightarrow> Inl IndexError
         | conflict_player # others \<Rightarrow> F conflict_team conflict_player))
   = F ''Tigers'' ''John Doe''"
  by (simp add: TEAMS_def)

lemma split_john_doe: "unpack2 (split_once (CHR '' '') ''John Doe'') = Inr (''John'', ''Doe'')"
  by (simp add: split_once_def)

lemma create_job_Inr:
  assumes "create_sports_test_job ev base_path g f0 = Inr j"
  shows "\<exists>base f1 f2 fonts.
      expanduser ev base_path = Inr base
    \<and> (if path_exists f0 (base @ [job_name]) then rmtree (base @ [job_name]) f0 else Inr f0) = Inr f1
    \<and> mkdir_all [base @ [job_name, ''Extracted''], base @ [job_name, ''Output''],
                  base @ [job_name, ''Finished Teams''], base @ [job_name, ''For Upload'']] f1 = Inr f2
    \<and> resolve_fonts ev = Inr fonts
    \<and> job_path j = base @ [job_name]
    \<and> job_rows j = roster_rows g @ take 5 (roster_rows g)
    \<and> job_created_files j = map fst (team_shots TEAMS 1 g)
    \<and> job_poses j = team_poses TEAMS g
    \<and> job_conflict_newname j = ''Tigers_John Doe_1.JPG''
    \<and> job_invalid_name j = ''IMG:INVALID<>NAME.JPG''
    \<and> job_files j =
        (put_shots (base @ [job_name, ''Extracted'']) fonts (team_shots TEAMS 1 g) f2)
        (base @ [job_name, ''Extracted'', ''Tigers_John Doe_1.JPG''] \<mapsto>
            fixture_image fonts ''Tigers'' ''John Doe (Existing)'',
         base @ [job_name, ''Extracted'', ''IMG:INVALID<>NAME.JPG''] \<mapsto>
            fixture_image fonts ''Invalid'' ''Filename'',
         base @ [job_name, ''roster.csv''] \<mapsto>
            Text (csv_text (roster_rows g @ take 5 (roster_rows g))),
         base @ [job_name, ''TEST_INSTRUCTIONS.md''] \<mapsto>
            Instructions ''Tigers, Hawks, Sharks'' ''Tigers_John Doe_1.JPG'' ''IMG:INVALID<>NAME.JPG'')"
proof -
  from assms obtain base where b: "expanduser ev base_path = Inr base"
    by (auto simp: create_sports_test_job_def split: sum.splits)
  let ?jp = "base @ [job_name]"
  let ?ex = "base @ [job_name, ''Extracted'']"
  let ?init = "\<lparr>counter = 1, RANDOM = g, rows = [], created_files = [], poses = [], files = undefined\<rparr>"
  from assms b obtain f1 where f1:
    "(if path_exists f0 ?jp then rmtree ?jp f0 else Inr f0) = Inr f1"
    by (auto simp: create_sports_test_job_def truediv_def Let_def split: sum.splits)
  from assms b f1 obtain f2 where f2:
    "mkdir_all [base @ [job_name, ''Extracted''], base @ [job_name, ''Output''],
                  base @ [job_name, ''Finished Teams''], base @ [job_name, ''For Upload'']] f1 = Inr f2"
    by (auto simp: create_sports_test_job_def truediv_def Let_def simp del: mkdir_all.simps split: sum.splits)
  from assms b f1 f2 obtain st where st:
    "team_loop ev ?ex TEAMS (?init\<lparr>files := f2\<rparr>) = Inr st"
    by (auto simp: create_sports_test_job_def truediv_def Let_def simp del: mkdir_all.simps split: sum.splits)
  from assms b f1 f2 st obtain f3 f4 f5 f6 where
    f3: "create_test_image ev (?ex @ [''Tigers_John Doe_1.JPG'']) 1600 1200 ''Tigers''
           ''John Doe (Existing)'' (files st) = Inr f3"
    and f4: "create_test_image ev (?ex @ [''IMG:INVALID<>NAME.JPG'']) 1600 1200 ''Invalid'' ''Filename'' f3 = Inr f4"
    and f5: "write_file (?jp @ [''roster.csv'']) (Text (csv_text (rows st @ take 5 (rows st)))) f4 = Inr f5"
    and f6: "write_file (?jp @ [''TEST_INSTRUCTIONS.md''])
           (Instructions (join '', '' (map fst TEAMS)) ''Tigers_John Doe_1.JPG'' ''IMG:INVALID<>NAME.JPG'') f5 = Inr f6"
    and j: "j = \<lparr>job_path = ?jp, job_rows = rows st @ take 5 (rows st), job_created_files = created_files st,
               job_poses = poses st, job_conflict_newname = ''Tigers_John Doe_1.JPG'',
               job_invalid_name = ''IMG:INVALID<>NAME.JPG'', job_files = f6\<rparr>"
    by (auto simp: create_sports_test_job_def truediv_def Let_def conflict_player_eval split_john_doe
        simp del: mkdir_all.simps split: sum.splits)
  from create_test_image_Inr [OF f3] obtain fonts where fonts: "resolve_fonts ev = Inr fonts"
    and f3': "f3 = (files st)(?ex @ [''Tigers_John Doe_1.JPG''] \<mapsto> fixture_image fonts ''Tigers'' ''John Doe (Existing)'')"
    by (auto simp: fixture_image_def)
  from create_test_image_Inr [OF f4] fonts
  have f4': "f4 = f3(?ex @ [''IMG:INVALID<>NAME.JPG''] \<mapsto> fixture_image fonts ''Invalid'' ''Filename'')"
    by (auto simp: fixture_image_def)
  note f5' = write_file_Inr [OF f5]
  note f6' = write_file_Inr [OF f6]
  note tl = team_loop_Inr [OF st fonts]
  have names: "join '', '' (map fst TEAMS) = ''Tigers, Hawks, Sharks''"
    by (simp add: TEAMS_def)
  from tl have rs: "rows st = roster_rows g" by (simp add: roster_rows_def)
  from tl have fl: "files st = put_shots ?ex fonts (team_shots TEAMS 1 g) f2" by simp
  from tl have cf: "created_files st = map fst (team_shots TEAMS 1 g)" by simp
  from tl have ps: "poses st = team_poses TEAMS g" by simp
  show ?thesis
    apply (rule exI [of _ base], rule exI [of _ f1], rule exI [of _ f2], rule exI [of _ fonts])
    using b f1 f2 fonts
    by (simp add: j f6' f5' f4' f3' names rs fl cf ps del: mkdir_all.simps)
qed

lemma numbered_append:
  "numbered c (xs @ ys) = (numbered c xs \<and> numbered (c + int (length xs)) ys)"
  by (induction xs arbitrary: c) (simp_all add: add.assoc)

lemma numbered_later: "numbered c xs \<Longrightarrow> x \<in> set xs \<Longrightarrow> \<exists>d c'. c \<le> c' \<and> x = pattern_name d c'"
proof (induction xs arbitrary: c)
  case Nil
  then show ?case by simp
next
  case (Cons y ys)
  show ?case
  proof (cases "x = y")
    case True
    with Cons.prems show ?thesis by auto
  next
    case False
    with Cons.prems have "numbered (c + 1) ys" "x \<in> set ys" by auto
    from Cons.IH [OF this] obtain d c' where "c + 1 \<le> c'" "x = pattern_name d c'" by blast
    then show ?thesis by (intro exI [of _ d] exI [of _ c']) simp
  qed
qed

lemma numbered_distinct: "numbered c xs \<Longrightarrow> distinct xs"
proof (induction xs arbitrary: c)
  case Nil
  then show ?case by simp
next
  case (Cons x xs)
  then obtain d where x: "x = pattern_name d c" and n: "numbered (c + 1) xs" by auto
  have "x \<notin> set xs"
  proof
    assume "x \<in> set xs"
    from numbered_later [OF n this] obtain d' c' where "c + 1 \<le> c'" "x = pattern_name d' c'"
      by blast
    with x have "c = c'" using pattern_name_inj by metis
    with \<open>c + 1 \<le> c'\<close> show False by simp
  qed
  with Cons.IH [OF n] show ?case by simp
qed

lemma numbered_pose_shots: "numbered c (map fst (pose_shots team player ks c g))"
  by (induction ks arbitrary: c g) auto

lemma drawn_pose_count_nonneg: "0 \<le> drawn_pose_count g"
  using drawn_pose_count_range [of g] by auto

lemma player_poses_nonneg: "0 \<le> sum_list (player_poses ps g)"
  by (induction ps arbitrary: g) (simp_all add: drawn_pose_count_nonneg)

lemma team_poses_nonneg: "0 \<le> sum_list (team_poses ts g)"
  by (induction ts arbitrary: g) (auto simp: player_poses_nonneg)

lemma length_player_shots:
  "int (length (player_shots team ps c g)) = sum_list (player_poses ps g)"
  by (induction ps arbitrary: c g)
     (simp_all add: length_pose_shots drawn_pose_count_nonneg)

lemma length_team_shots:
  "int (length (team_shots ts c g)) = sum_list (team_poses ts g)"
  by (induction ts arbitrary: c g) (auto simp: length_player_shots)

lemma numbered_player_shots: "numbered c (map fst (player_shots team ps c g))"
  by (induction ps arbitrary: c g)
     (simp_all add: numbered_append numbered_pose_shots length_pose_shots drawn_pose_count_nonneg)

lemma numbered_team_shots: "numbered c (map fst (team_shots ts c g))"
  by (induction ts arbitrary: c g)
     (auto simp: numbered_append numbered_player_shots length_player_shots)

lemma length_player_poses: "length (player_poses ps g) = length ps"
  by (induction ps arbitrary: g) simp_all

lemma player_poses_range: "set (player_poses ps g) \<subseteq> {2, 3, 4}"
  using drawn_pose_count_range by (induction ps arbitrary: g) auto

lemma team_poses_range: "set (team_poses ts g) \<subseteq> {2, 3, 4}"
proof (induction ts arbitrary: g)
  case Nil
  then show ?case by simp
next
  case (Cons t ts)
  obtain team players where t: "t = (team, players)" by (cases t)
  from Cons [of "after_players players g"] player_poses_range [of players g] t
  show ?case by simp
qed

lemma length_team_poses: "length (team_poses ts g) = sum_list (map (\<lambda>t. length (snd t)) ts)"
  by (induction ts arbitrary: g) (auto simp: length_player_poses)

lemma wf_fs_below: "wf_fs f \<Longrightarrow> f p = None \<Longrightarrow> f (p @ q) = None"
proof (induction q rule: rev_induct)
  case Nil
  then show ?case by simp
next
  case (snoc x q)
  then have "f (p @ q) = None" by simp
  with snoc.prems(1) show ?case
    unfolding wf_fs_def by (metis append.assoc option.distinct(1))
qed

lemma rmtree_below: "rmtree p f = Inr f' \<Longrightarrow> f' (p @ q) = None"
  by (auto simp: rmtree_def split: option.splits node.splits)

lemma mkdir_parents_other:
  "mkdir_parents p f = Inr f' \<Longrightarrow> \<not> prefix q p \<Longrightarrow> f' q = f q"
  by (auto simp: mkdir_parents_def split: if_splits)

lemma mkdir_all_other:
  "mkdir_all ps f = Inr f' \<Longrightarrow> \<forall>p \<in> set ps. \<not> prefix q p \<Longrightarrow> f' q = f q"
proof (induction ps arbitrary: f)
  case Nil
  then show ?case by simp
next
  case (Cons p ps)
  from Cons.prems(1) obtain f1 where a: "mkdir_parents p f = Inr f1" and b: "mkdir_all ps f1 = Inr f'"
    by (auto split: sum.splits)
  from Cons.prems(2) have "f1 q = f q" using mkdir_parents_other [OF a] by simp
  moreover from Cons.prems(2) have "f' q = f1 q" using Cons.IH [OF b] by simp
  ultimately show ?case by simp
qed

lemma fresh_job_dir:
  assumes "wf_fs f0"
    and "(if path_exists f0 jp then rmtree jp f0 else Inr f0) = Inr f1"
  shows "f1 (jp @ x # q) = None"
proof (cases "path_exists f0 jp")
  case True
  with assms(2) show ?thesis using rmtree_below by simp
next
  case False
  with assms(2) have "f1 = f0" "f0 jp = None" by (simp_all add: path_exists_def)
  with assms(1) show ?thesis using wf_fs_below by simp
qed

lemma fresh_extracted:
  assumes "wf_fs f0"
    and "(if path_exists f0 (base @ [job_name]) then rmtree (base @ [job_name]) f0 else Inr f0) = Inr f1"
    and "mkdir_all [base @ [job_name, ''Extracted''], base @ [job_name, ''Output''],
                  base @ [job_name, ''Finished Teams''], base @ [job_name, ''For Upload'']] f1 = Inr f2"
  shows "listdir f2 (base @ [job_name, ''Extracted'']) = {}"
proof -
  have "f2 (base @ [job_name, ''Extracted'', n]) = None" for n
  proof -
    have "f2 (base @ [job_name, ''Extracted'', n]) = f1 (base @ [job_name, ''Extracted'', n])"
      by (rule mkdir_all_other [OF assms(3)]) simp
    also have "\<dots> = None"
      using fresh_job_dir [OF assms(1,2), of "''Extracted''" "[n]"] by simp
    finally show ?thesis .
  qed
  then show ?thesis by (simp add: listdir_def)
qed

lemma listdir_put_shots:
  "listdir (put_shots d fonts shots f) d = listdir f d \<union> set (map fst shots)"
  by (induction shots arbitrary: f) (auto simp: listdir_def)

lemma pattern_name_not_fixture:
  "pattern_name d c \<noteq> ''Tigers_John Doe_1.JPG''"
  "pattern_name d c \<noteq> ''IMG:INVALID<>NAME.JPG''"
  using pattern_name_cases [of d c] by auto

lemma numbered_not_fixture:
  assumes "numbered c xs"
  shows "''Tigers_John Doe_1.JPG'' \<notin> set xs" "''IMG:INVALID<>NAME.JPG'' \<notin> set xs"
  using numbered_later [OF assms] pattern_name_not_fixture by metis+

lemma listdir_job:
  assumes "create_sports_test_job ev base_path g f0 = Inr j" and "wf_fs f0"
  shows "listdir (job_files j) (job_path j @ [''Extracted'']) =
           set (job_created_files j) \<union> {job_conflict_newname j, job_invalid_name j}"
proof -
  from create_job_Inr [OF assms(1)] obtain base f1 f2 fonts where
    f1: "(if path_exists f0 (base @ [job_name]) then rmtree (base @ [job_name]) f0 else Inr f0) = Inr f1"
    and f2: "mkdir_all [base @ [job_name, ''Extracted''], base @ [job_name, ''Output''],
                  base @ [job_name, ''Finished Teams''], base @ [job_name, ''For Upload'']] f1 = Inr f2"
    and jp: "job_path j = base @ [job_name]"
    and cf: "job_created_files j = map fst (team_shots TEAMS 1 g)"
    and cn: "job_conflict_newname j = ''Tigers_John Doe_1.JPG''"
    and iv: "job_invalid_name j = ''IMG:INVALID<>NAME.JPG''"
    and fl: "job_files j =
        (put_shots (base @ [job_name, ''Extracted'']) fonts (team_shots TEAMS 1 g) f2)
        (base @ [job_name, ''Extracted'', ''Tigers_John Doe_1.JPG''] \<mapsto>
            fixture_image fonts ''Tigers'' ''John Doe (Existing)'',
         base @ [job_name, ''Extracted'', ''IMG:INVALID<>NAME.JPG''] \<mapsto>
            fixture_image fonts ''Invalid'' ''Filename'',
         base @ [job_name, ''roster.csv''] \<mapsto>
            Text (csv_text (roster_rows g @ take 5 (roster_rows g))),
         base @ [job_name, ''TEST_INSTRUCTIONS.md''] \<mapsto>
            Instructions ''Tigers, Hawks, Sharks'' ''Tigers_John Doe_1.JPG'' ''IMG:INVALID<>NAME.JPG'')"
    by blast
  let ?ex = "base @ [job_name, ''Extracted'']"
  let ?p = "put_shots ?ex fonts (team_shots TEAMS 1 g) f2"
  have "listdir (job_files j) ?ex = listdir ?p ?ex \<union> {''Tigers_John Doe_1.JPG'', ''IMG:INVALID<>NAME.JPG''}"
    unfolding fl by (auto simp: listdir_def)
  also have "listdir ?p ?ex = set (map fst (team_shots TEAMS 1 g))"
    using listdir_put_shots [of ?ex fonts "team_shots TEAMS 1 g" f2]
      fresh_extracted [OF assms(2) f1 f2] by simp
  finally show ?thesis by (simp add: jp cf cn iv)
qed

lemma card_listdir_job:
  assumes "create_sports_test_job ev base_path g f0 = Inr j" and "wf_fs f0"
  shows "card (listdir (job_files j) (job_path j @ [''Extracted''])) = length (job_created_files j) + 2"
proof -
  from create_job_Inr [OF assms(1)] have
    cf: "job_created_files j = map fst (team_shots TEAMS 1 g)"
    and cn: "job_conflict_newname j = ''Tigers_John Doe_1.JPG''"
    and iv: "job_invalid_name j = ''IMG:INVALID<>NAME.JPG''"
    by auto
  have n: "numbered 1 (job_created_files j)" unfolding cf by (rule numbered_team_shots)
  note d = numbered_distinct [OF n]
  note nf = numbered_not_fixture [OF n]
  from d have "card (set (job_created_files j)) = length (job_created_files j)"
    by (rule distinct_card)
  with nf show ?thesis
    unfolding listdir_job [OF assms] cn iv by simp
qed

lemma create_test_image_ok:
  assumes "resolve_fonts ev = Inr fonts" and "writable f d"
  shows "\<exists>f'. create_test_image ev (d @ [n]) w h title subtitle f = Inr f' \<and> writable f' d"
  using assms
  by (cases fonts) (auto simp: create_test_image_def write_file_def writable_def
      split: option.splits node.splits)

lemma pose_loop_ok:
  assumes "resolve_fonts ev = Inr fonts" and "writable (files st) ex"
  shows "\<exists>st'. pose_loop ev ex team player first last' ks st = Inr st' \<and> writable (files st') ex"
  using assms(2)
proof (induction ks arbitrary: st)
  case Nil
  then show ?case by simp
next
  case (Cons k ks)
  let ?name = "pattern_name (RANDOM st 0) (counter st)"
  from create_test_image_ok [OF assms(1) Cons.prems]
  obtain f where f: "create_test_image ev (ex @ [?name]) 1600 1200 team
       (player @ '' - Pose '' @ py_str k) (files st) = Inr f" and w: "writable f ex"
    by blast
  let ?st1 = "st\<lparr>counter := counter st + 1, RANDOM := advance (RANDOM st),
                 created_files := created_files st @ [?name],
                 rows := rows st @ [[?name, first, last', [], [], [], team, team]],
                 files := f\<rparr>"
  from w have "writable (files ?st1) ex" by simp
  from Cons.IH [OF this] f show ?case
    by (simp add: next_camera_name_eq truediv_def)
qed

lemma player_loop_ok:
  assumes "resolve_fonts ev = Inr fonts" and "writable (files st) ex"
    and "\<forall>p \<in> set players. \<exists>a b. unpack2 (split_once (CHR '' '') p) = Inr (a, b)"
  shows "\<exists>st'. player_loop ev ex team players st = Inr st' \<and> writable (files st') ex"
  using assms(2,3)
proof (induction players arbitrary: st)
  case Nil
  then show ?case by simp
next
  case (Cons p ps)
  from Cons.prems(2) obtain a b where sp: "unpack2 (split_once (CHR '' '') p) = Inr (a, b)"
    by auto
  let ?n = "drawn_pose_count (RANDOM st)"
  let ?st1 = "st\<lparr>RANDOM := advance (RANDOM st), poses := poses st @ [?n]\<rparr>"
  from Cons.prems(1) have "writable (files ?st1) ex" by simp
  from pose_loop_ok [OF assms(1) this]
  obtain st2 where pl: "pose_loop ev ex team p a b [1..?n] ?st1 = Inr st2"
    and w2: "writable (files st2) ex" by blast
  from Cons.prems(2) have "\<forall>p \<in> set ps. \<exists>a b. unpack2 (split_once (CHR '' '') p) = Inr (a, b)"
    by simp
  from Cons.IH [OF w2 this] sp pl show ?case
    by (simp add: choice_poses)
qed

lemma team_loop_ok:
  assumes "resolve_fonts ev = Inr fonts" and "writable (files st) ex"
    and "\<forall>t \<in> set teams. \<forall>p \<in> set (snd t). \<exists>a b. unpack2 (split_once (CHR '' '') p) = Inr (a, b)"
  shows "\<exists>st'. team_loop ev ex teams st = Inr st' \<and> writable (files st') ex"
  using assms(2,3)
proof (induction teams arbitrary: st)
  case Nil
  then show ?case by simp
next
  case (Cons t ts)
  obtain team players where t: "t = (team, players)" by (cases t)
  with Cons.prems(2) have "\<forall>p \<in> set players. \<exists>a b. unpack2 (split_once (CHR '' '') p) = Inr (a, b)"
    by simp
  from player_loop_ok [OF assms(1) Cons.prems(1) this]
  obtain st1 where pl: "player_loop ev ex team players st = Inr st1"
    and w1: "writable (files st1) ex" by blast
  from Cons.prems(2) have "\<forall>t \<in> set ts. \<forall>p \<in> set (snd t). \<exists>a b. unpack2 (split_once (CHR '' '') p) = Inr (a, b)"
    by simp
  from Cons.IH [OF w1 this] pl t show ?case by simp
qed

lemma teams_split_ok:
  "\<forall>t \<in> set TEAMS. \<forall>p \<in> set (snd t). \<exists>a b. unpack2 (split_once (CHR '' '') p) = Inr (a, b)"
  by (simp add: TEAMS_def split_once_def)

lemma mkdir_parents_ok:
  "\<forall>q. prefix q p \<longrightarrow> \<not> is_file f q \<Longrightarrow>
     mkdir_parents p f = Inr (\<lambda>q. if prefix q p \<and> f q = None then Some Dir else f q)"
  by (simp add: mkdir_parents_def)

lemma mkdir_all_ok:
  assumes "\<forall>p \<in> set ps. \<forall>q. prefix q p \<longrightarrow> \<not> is_file f q"
  shows "\<exists>f'. mkdir_all ps f = Inr f'
           \<and> (\<forall>q. f' q = (if (\<exists>p \<in> set ps. prefix q p) \<and> f q = None then Some Dir else f q))"
  using assms
proof (induction ps arbitrary: f)
  case Nil
  then show ?case by simp
next
  case (Cons p ps)
  let ?f1 = "\<lambda>q. if prefix q p \<and> f q = None then Some Dir else f q"
  from Cons.prems have m: "mkdir_parents p f = Inr ?f1"
    by (intro mkdir_parents_ok) simp
  have "is_file ?f1 q = is_file f q" for q
    by (simp add: is_file_def)
  with Cons.prems have "\<forall>p \<in> set ps. \<forall>q. prefix q p \<longrightarrow> \<not> is_file ?f1 q" by simp
  from Cons.IH [OF this] obtain f' where
    a: "mkdir_all ps ?f1 = Inr f'"
    and b: "\<forall>q. f' q = (if (\<exists>p \<in> set ps. prefix q p) \<and> ?f1 q = None then Some Dir else ?f1 q)"
    by blast
  from b have "\<forall>q. f' q = (if (\<exists>p' \<in> set (p # ps). prefix q p') \<and> f q = None then Some Dir else f q)"
    by auto
  with m a show ?case by simp
qed

lemma put_shots_other: "\<forall>n. p \<noteq> d @ [n] \<Longrightarrow> put_shots d fonts shots f p = f p"
  by (induction shots arbitrary: f) simp_all

lemma prepare_ok:
  assumes wf: "wf_fs f0" and nf: "\<forall>q. prefix q jp \<longrightarrow> \<not> is_file f0 q"
  shows "\<exists>f1 f2. (if path_exists f0 jp then rmtree jp f0 else Inr f0) = Inr f1
     \<and> mkdir_all [jp @ [a], jp @ [b], jp @ [c], jp @ [d]] f1 = Inr f2
     \<and> f2 jp = Some Dir \<and> f2 (jp @ [a]) = Some Dir
     \<and> (\<forall>x q. q \<noteq> [] \<or> x \<notin> {a, b, c, d} \<longrightarrow> f2 (jp @ x # q) = None)"
proof -
  from nf have njp: "\<not> is_file f0 jp" by simp
  define f1 where "f1 = (if path_exists f0 jp then (\<lambda>q. if prefix jp q then None else f0 q) else f0)"
  have s1: "(if path_exists f0 jp then rmtree jp f0 else Inr f0) = Inr f1"
    using njp by (auto simp: f1_def rmtree_def path_exists_def is_file_def split: option.splits node.splits)
  have fresh: "f1 (jp @ x # q) = None" for x q
    by (rule fresh_job_dir [OF wf s1])
  have nofile: "\<not> is_file f1 q" if "prefix q jp" for q
    using nf that by (auto simp: f1_def is_file_def)
  have "\<forall>p \<in> set [jp @ [a], jp @ [b], jp @ [c], jp @ [d]]. \<forall>q. prefix q p \<longrightarrow> \<not> is_file f1 q"
  proof (intro ballI allI impI)
    fix p q assume p: "p \<in> set [jp @ [a], jp @ [b], jp @ [c], jp @ [d]]" and q: "prefix q p"
    from p obtain x where px: "p = jp @ [x]" by auto
    with q have "prefix q jp \<or> q = jp @ [x]" by (auto simp: prefix_snoc)
    then show "\<not> is_file f1 q"
    proof
      assume "prefix q jp" then show ?thesis by (rule nofile)
    next
      assume "q = jp @ [x]"
      with fresh [of x "[]"] show ?thesis by (simp add: is_file_def)
    qed
  qed
  from mkdir_all_ok [OF this] obtain f2 where
    s2: "mkdir_all [jp @ [a], jp @ [b], jp @ [c], jp @ [d]] f1 = Inr f2"
    and c: "\<forall>q. f2 q = (if (\<exists>p \<in> set [jp @ [a], jp @ [b], jp @ [c], jp @ [d]]. prefix q p) \<and> f1 q = None
                         then Some Dir else f1 q)"
    by blast
  have jpd: "f2 jp = Some Dir"
  proof (cases "f1 jp")
    case None
    with c show ?thesis by simp
  next
    case (Some n)
    with nofile [of jp] have "n = Dir" by (cases n) (simp_all add: is_file_def)
    with Some c show ?thesis by simp
  qed
  have ad: "f2 (jp @ [a]) = Some Dir"
    using c fresh [of a "[]"] by simp
  have rest: "f2 (jp @ x # q) = None" if "q \<noteq> [] \<or> x \<notin> {a, b, c, d}" for x q
  proof -
    from that have "\<not> (\<exists>p \<in> set [jp @ [a], jp @ [b], jp @ [c], jp @ [d]]. prefix (jp @ x # q) p)"
      by auto
    with c fresh [of x q] show ?thesis by simp
  qed
  from s1 s2 jpd ad rest show ?thesis by blast
qed

lemma write_file_ok:
  "f d = Some Dir \<Longrightarrow> f (d @ [n]) \<noteq> Some Dir \<Longrightarrow>
     write_file (d @ [n]) c f = Inr (f(d @ [n] \<mapsto> c))"
  by (auto simp: write_file_def split: option.splits node.splits)

lemma create_job_ok:
  assumes ex: "expanduser ev base_path = Inr base"
    and fonts: "resolve_fonts ev = Inr fonts"
    and wf: "wf_fs f0"
    and nf: "\<forall>q. prefix q (base @ [job_name]) \<longrightarrow> \<not> is_file f0 q"
  shows "\<exists>j. create_sports_test_job ev base_path g f0 = Inr j"
proof -
  let ?jp = "base @ [job_name]"
  let ?ex = "?jp @ [''Extracted'']"
  from prepare_ok [OF wf nf, of "''Extracted''" "''Output''" "''Finished Teams''" "''For Upload''"]
  obtain f1 f2 where
    s1: "(if path_exists f0 ?jp then rmtree ?jp f0 else Inr f0) = Inr f1"
    and s2: "mkdir_all [?jp @ [''Extracted''], ?jp @ [''Output''], ?jp @ [''Finished Teams''],
               ?jp @ [''For Upload'']] f1 = Inr f2"
    and jpd: "f2 ?jp = Some Dir" and exd: "f2 ?ex = Some Dir"
    and rest: "\<forall>x q. q \<noteq> [] \<or> x \<notin> {''Extracted'', ''Output'', ''Finished Teams'', ''For Upload''}
                 \<longrightarrow> f2 (?jp @ x # q) = None"
    by blast
  have w2: "writable f2 ?ex"
    unfolding writable_def
  proof (intro conjI allI)
    show "f2 ?ex = Some Dir" by (rule exd)
    fix n
    from rest [rule_format, of "[n]" "''Extracted''"] have "f2 (?jp @ [''Extracted'', n]) = None"
      by simp
    then show "f2 (?ex @ [n]) \<noteq> Some Dir" by simp
  qed
  let ?init = "\<lparr>counter = 1, RANDOM = g, rows = [], created_files = [], poses = [], files = f2\<rparr>"
  from w2 have "writable (files ?init) ?ex" by simp
  from team_loop_ok [OF fonts this teams_split_ok] obtain st where
    st: "team_loop ev ?ex TEAMS ?init = Inr st" and w: "writable (files st) ?ex"
    by blast
  from team_loop_Inr [OF st fonts] have fl: "files st = put_shots ?ex fonts (team_shots TEAMS 1 g) f2"
    by simp
  have outside: "files st p = f2 p" if "\<forall>n. p \<noteq> ?ex @ [n]" for p
    unfolding fl using that by (rule put_shots_other)
  from create_test_image_ok [OF fonts w] obtain f3 where
    f3: "create_test_image ev (?ex @ [''Tigers_John Doe_1.JPG'']) 1600 1200 ''Tigers''
           ''John Doe (Existing)'' (files st) = Inr f3" and w3: "writable f3 ?ex"
    by blast
  from create_test_image_ok [OF fonts w3] obtain f4 where
    f4: "create_test_image ev (?ex @ [''IMG:INVALID<>NAME.JPG'']) 1600 1200 ''Invalid'' ''Filename'' f3 = Inr f4"
    by blast
  have f4o: "f4 p = f2 p" if "\<forall>n. p \<noteq> ?ex @ [n]" for p
  proof -
    from create_test_image_Inr [OF f3] create_test_image_Inr [OF f4] that
    have "f4 p = files st p" by auto
    with outside [OF that] show ?thesis by simp
  qed
  have "f4 ?jp = Some Dir" using f4o [of ?jp] jpd by simp
  moreover have "f4 (?jp @ [''roster.csv'']) = None"
    using f4o [of "?jp @ [''roster.csv'']"] rest [rule_format, of "[]" "''roster.csv''"] by simp
  ultimately have f5: "write_file (?jp @ [''roster.csv'']) c f4 = Inr (f4(?jp @ [''roster.csv''] \<mapsto> c))" for c
    using write_file_ok [of f4 ?jp "''roster.csv''" c] by simp
  have "f4 (?jp @ [''TEST_INSTRUCTIONS.md'']) = None"
    using f4o [of "?jp @ [''TEST_INSTRUCTIONS.md'']"] rest [rule_format, of "[]" "''TEST_INSTRUCTIONS.md''"]
    by simp
  with \<open>f4 ?jp = Some Dir\<close>
  have f6: "write_file (?jp @ [''TEST_INSTRUCTIONS.md'']) c' (f4(?jp @ [''roster.csv''] \<mapsto> c)) =
        Inr (f4(?jp @ [''roster.csv''] \<mapsto> c, ?jp @ [''TEST_INSTRUCTIONS.md''] \<mapsto> c'))" for c c'
    using write_file_ok [of "f4(?jp @ [''roster.csv''] \<mapsto> c)" ?jp "''TEST_INSTRUCTIONS.md''" c'] by simp
  show ?thesis
  proof (cases "path_exists f0 ?jp")
    case True
    with s1 have "rmtree ?jp f0 = Inr f1" by simp
    with True s2 st f3 f4 f5 f6 show ?thesis
      unfolding create_sports_test_job_def Let_def truediv_def
      by (simp add: ex conflict_player_eval split_john_doe del: mkdir_all.simps)
  next
    case False
    with s1 have "f0 = f1" by simp
    with False s2 st f3 f4 f5 f6 show ?thesis
      unfolding create_sports_test_job_def Let_def truediv_def
      by (simp add: ex conflict_player_eval split_john_doe del: mkdir_all.simps)
  qed
qed

section \<open>Counting rows and images\<close>

lemma wf_fs_empty: "wf_fs Map.empty"
  by (simp add: wf_fs_def)

lemma resolve_no_fonts: "resolve_fonts no_fonts = Inr (DefaultFont, DefaultFont)"
  by (simp add: resolve_fonts_def no_fonts_def load_default_def)

lemma demo_run: "create_sports_test_job no_fonts ''out'' g Map.empty
    = Inr (projr (create_sports_test_job no_fonts ''out'' g Map.empty))"
proof -
  have "\<exists>j. create_sports_test_job no_fonts ''out'' g Map.empty = Inr j"
    by (rule create_job_ok [where base = "[''out'']", OF _ resolve_no_fonts wf_fs_empty])
       (simp_all add: no_fonts_def is_file_def)
  then show ?thesis by auto
qed

lemma created_files_count:
  assumes "create_sports_test_job ev base_path g f0 = Inr j"
  shows "int (length (job_created_files j)) = sum_list (job_poses j)"
    and "length (job_poses j) = length (concat (map snd TEAMS))"
    and "set (job_poses j) \<subseteq> {2, 3, 4}"
    and "length (job_rows j) = length (job_created_files j) + 5"
proof -
  from create_job_Inr [OF assms] have
    cf: "job_created_files j = map fst (team_shots TEAMS 1 g)"
    and ps: "job_poses j = team_poses TEAMS g"
    and rs: "job_rows j = roster_rows g @ take 5 (roster_rows g)"
    by auto
  show a: "int (length (job_created_files j)) = sum_list (job_poses j)"
    by (simp add: cf ps length_team_shots)
  show b: "length (job_poses j) = length (concat (map snd TEAMS))"
    by (simp add: ps length_team_poses TEAMS_def)
  show c: "set (job_poses j) \<subseteq> {2, 3, 4}"
    unfolding ps by (rule team_poses_range)
  have "2 * int (length xs) \<le> sum_list xs" if "set xs \<subseteq> {2, 3, 4}" for xs :: "int list"
    using that by (induction xs) auto
  from this [OF c] b a have "30 \<le> length (job_created_files j)"
    by (simp add: TEAMS_def)
  then show "length (job_rows j) = length (job_created_files j) + 5"
    by (simp add: rs cf roster_rows_def)
qed

text \<open>
  C3. After a completed run on a well-formed file system, the number of images in the
  \<open>Extracted\<close> directory is the sum of the pose counts drawn for the players (one
  count per player of the team table) plus 2, for the conflict and the invalid-name
  fixtures.
\<close>

theorem images_count:
  assumes "create_sports_test_job ev base_path g f0 = Inr j" and "wf_fs f0"
  shows "int (card (listdir (job_files j) (truediv (job_path j) ''Extracted''))) = sum_list (job_poses j) + 2
       \<and> length (job_poses j) = length (concat (map snd TEAMS))"
  using card_listdir_job [OF assms] created_files_count(1,2) [OF assms(1)]
  by (simp add: truediv_def)

theorem images_count_witness:
  "wf_fs Map.empty
   \<and> create_sports_test_job no_fonts ''out'' (\<lambda>_. 0) Map.empty = Inr demo
   \<and> int (card (listdir (job_files demo) (truediv (job_path demo) ''Extracted''))) = sum_list (job_poses demo) + 2"
  using images_count [OF demo_run [of "\<lambda>_. 0"] wf_fs_empty] demo_run [of "\<lambda>_. 0"] wf_fs_empty
  by (simp add: demo_def)

lemma sum_list_bounds:
  fixes xs :: "int list"
  assumes "set xs \<subseteq> {2, 3, 4}"
  shows "2 * int (length xs) \<le> sum_list xs \<and> sum_list xs \<le> 4 * int (length xs)"
  using assms by (induction xs) auto

lemma after_player_zero: "after_player (\<lambda>_. 0) = (\<lambda>_. 0)"
proof -
  have "(advance ^^ n) (\<lambda>_. 0) = (\<lambda>_. 0)" for n
    by (induction n) (simp_all add: advance_def)
  then show ?thesis unfolding after_player_def .
qed

lemma demo_poses: "job_poses demo = [2, 2, 2, 2, 2, 2, 2, 2, 2, 2, 2, 2, 2, 2, 2]"
proof -
  have p: "player_poses ps (\<lambda>_. 0) = replicate (length ps) 2" for ps
    by (induction ps) (simp_all add: after_player_zero drawn_pose_count_def)
  have a: "after_players ps (\<lambda>_. 0) = (\<lambda>_. 0)" for ps
    by (induction ps) (simp_all add: after_player_zero)
  have t: "team_poses TEAMS (\<lambda>_. 0) = [2, 2, 2, 2, 2, 2, 2, 2, 2, 2, 2, 2, 2, 2, 2]"
    by (simp add: TEAMS_def p a)
  from create_job_Inr [OF demo_run [of "\<lambda>_. 0"]]
  have "job_poses demo = team_poses TEAMS (\<lambda>_. 0)"
    unfolding demo_def by blast
  with t show ?thesis by simp
qed

text \<open>
  C2, as the code has it. With the 3 teams of 5 players and pose counts from
  \<open>{2, 3, 4}\<close>, the written table has between 35 and 65 data rows, 5 of them the
  duplicated rows; the images directory holds one image per original row and the two
  fixtures, that is the row count minus 5 plus 2.
\<close>

theorem table_rows_and_images:
  assumes "create_sports_test_job ev base_path g f0 = Inr j" and "wf_fs f0"
  shows "35 \<le> length (job_rows j) \<and> length (job_rows j) \<le> 65
       \<and> card (listdir (job_files j) (truediv (job_path j) ''Extracted'')) = length (job_rows j) - 5 + 2
       \<and> length (job_poses j) = 15 \<and> set (job_poses j) \<subseteq> {2, 3, 4}"
proof -
  note c = created_files_count [OF assms(1)]
  from c(2) have n: "length (job_poses j) = 15" by (simp add: TEAMS_def)
  from sum_list_bounds [OF c(3)] n c(1)
  have "30 \<le> length (job_created_files j) \<and> length (job_created_files j) \<le> 60" by simp
  with c(3,4) n card_listdir_job [OF assms] show ?thesis
    by (simp add: truediv_def)
qed

theorem table_rows_and_images_witness:
  "wf_fs Map.empty
   \<and> create_sports_test_job no_fonts ''out'' (\<lambda>i. i) Map.empty
       = Inr (projr (create_sports_test_job no_fonts ''out'' (\<lambda>i. i) Map.empty))
   \<and> 35 \<le> length (job_rows (projr (create_sports_test_job no_fonts ''out'' (\<lambda>i. i) Map.empty)))
   \<and> length (job_rows (projr (create_sports_test_job no_fonts ''out'' (\<lambda>i. i) Map.empty))) \<le> 65"
  using table_rows_and_images [OF demo_run [of "\<lambda>i. i"] wf_fs_empty] demo_run [of "\<lambda>i. i"] wf_fs_empty
  by simp

text \<open>
  C2, as stated, fails: when every draw is 0 each player has 2 poses, the table has 35
  data rows and the directory 32 images, not 37.
\<close>

theorem images_not_rows_plus_two:
  "create_sports_test_job no_fonts ''out'' (\<lambda>_. 0) Map.empty = Inr demo
   \<and> length (job_rows demo) = 35
   \<and> card (listdir (job_files demo) (truediv (job_path demo) ''Extracted'')) = 32
   \<and> card (listdir (job_files demo) (truediv (job_path demo) ''Extracted'')) \<noteq> length (job_rows demo) + 2"
proof -
  have run: "create_sports_test_job no_fonts ''out'' (\<lambda>_. 0) Map.empty = Inr demo"
    using demo_run [of "\<lambda>_. 0"] by (simp add: demo_def)
  note c = created_files_count [OF run]
  from c(1) have "length (job_created_files demo) = 30" by (simp add: demo_poses)
  with c(4) card_listdir_job [OF run wf_fs_empty] run show ?thesis
    by (simp add: truediv_def)
qed

section \<open>The rows of the table\<close>

lemma demo_ok: "create_sports_test_job no_fonts ''out'' (\<lambda>_. 0) Map.empty = Inr demo"
  using demo_run [of "\<lambda>_. 0"] by (simp add: demo_def)

lemma pose_shots_player:
  "s \<in> set (pose_shots team player ks c g) \<Longrightarrow> fst (snd s) = team \<and> fst (snd (snd s)) = player"
  by (induction ks arbitrary: c g) auto

lemma player_shots_player:
  "s \<in> set (player_shots team ps c g) \<Longrightarrow> fst (snd s) = team \<and> fst (snd (snd s)) \<in> set ps"
proof (induction ps arbitrary: c g)
  case Nil
  then show ?case by simp
next
  case (Cons p ps)
  from Cons.prems consider
    "s \<in> set (pose_shots team p [1..drawn_pose_count g] c (advance g))"
    | "s \<in> set (player_shots team ps (c + drawn_pose_count g) (after_player g))"
    by auto
  then show ?case
  proof cases
    case 1
    then show ?thesis using pose_shots_player by fastforce
  next
    case 2
    then show ?thesis using Cons.IH by fastforce
  qed
qed

lemma team_shots_player:
  "s \<in> set (team_shots ts c g) \<Longrightarrow> \<exists>t \<in> set ts. fst (snd s) = fst t \<and> fst (snd (snd s)) \<in> set (snd t)"
proof (induction ts arbitrary: c g)
  case Nil
  then show ?case by simp
next
  case (Cons t ts)
  obtain team players where t: "t = (team, players)" by (cases t)
  from Cons.prems t consider
    "s \<in> set (player_shots team players c g)"
    | "s \<in> set (team_shots ts (c + sum_list (player_poses players g)) (after_players players g))"
    by auto
  then show ?case
  proof cases
    case 1
    then show ?thesis using player_shots_player t by fastforce
  next
    case 2
    from Cons.IH [OF this] show ?thesis by auto
  qed
qed

lemma shot_row_col0:
  assumes "s \<in> set (team_shots TEAMS c g)"
  shows "\<exists>first last'. unpack2 (split_once (CHR '' '') (fst (snd (snd s)))) = Inr (first, last')
           \<and> shot_row s = [fst s, first, last', [], [], [], fst (snd s), fst (snd s)]"
proof -
  from team_shots_player [OF assms] teams_split_ok
  obtain a b where "unpack2 (split_once (CHR '' '') (fst (snd (snd s)))) = Inr (a, b)"
    by blast
  then show ?thesis
    by (cases s) (auto simp: shot_row_def)
qed

lemma roster_rows_col0: "map (\<lambda>r. r ! 0) (roster_rows g) = map fst (team_shots TEAMS 1 g)"
  unfolding roster_rows_def using shot_row_col0 by (fastforce simp: map_eq_conv)

lemma roster_rows_width: "r \<in> set (roster_rows g) \<Longrightarrow> length r = 8"
  unfolding roster_rows_def using shot_row_col0 by fastforce

text \<open>
  C5. In the rows written to the table, the rows before the last five are the original
  rows: their column-0 values are the names of the rendered images, in order, and are
  pairwise distinct; the last five rows are a copy of the first five original rows, in
  order.
\<close>

theorem rows_unique_then_duplicated:
  assumes "create_sports_test_job ev base_path g f0 = Inr j"
  shows "5 \<le> length (job_rows j) - 5
       \<and> map (\<lambda>r. r ! 0) (take (length (job_rows j) - 5) (job_rows j)) = job_created_files j
       \<and> distinct (map (\<lambda>r. r ! 0) (take (length (job_rows j) - 5) (job_rows j)))
       \<and> drop (length (job_rows j) - 5) (job_rows j) = take 5 (job_rows j)
       \<and> length (drop (length (job_rows j) - 5) (job_rows j)) = 5"
proof -
  from create_job_Inr [OF assms] have
    cf: "job_created_files j = map fst (team_shots TEAMS 1 g)"
    and rs: "job_rows j = roster_rows g @ take 5 (roster_rows g)"
    by auto
  note c = created_files_count [OF assms]
  have len: "length (roster_rows g) = length (job_created_files j)"
    by (simp add: cf roster_rows_def)
  from sum_list_bounds [OF c(3)] c(1,2) have big: "30 \<le> length (job_created_files j)"
    by (simp add: TEAMS_def)
  with len have n: "length (job_rows j) - 5 = length (roster_rows g)"
    by (simp add: rs)
  have d: "distinct (job_created_files j)"
    unfolding cf using numbered_team_shots by (rule numbered_distinct)
  from big len have t5: "take 5 (roster_rows g @ take 5 (roster_rows g)) = take 5 (roster_rows g)"
    by simp
  from n big len d show ?thesis
    by (simp add: rs roster_rows_col0 cf t5)
qed

theorem rows_unique_then_duplicated_witness:
  "create_sports_test_job no_fonts ''out'' (\<lambda>_. 0) Map.empty = Inr demo
   \<and> distinct (map (\<lambda>r. r ! 0) (take (length (job_rows demo) - 5) (job_rows demo)))
   \<and> drop (length (job_rows demo) - 5) (job_rows demo) = take 5 (job_rows demo)"
  using rows_unique_then_duplicated [OF demo_ok] demo_ok by blast

section \<open>Reproducibility\<close>

lemma wf_old_disk: "wf_fs old_disk"
  by (auto simp: wf_fs_def old_disk_def job_name_def append_eq_Cons_conv split: if_splits)

lemma old_disk_run: "\<exists>j. create_sports_test_job with_fonts ''out'' g old_disk = Inr j"
proof (rule create_job_ok [where base = "[''out'']" and fonts = "(TrueType ''/System/Library/Fonts/SFNS.ttf'' 48, TrueType ''/System/Library/Fonts/SFNS.ttf'' 28)", OF _ _ wf_old_disk])
  show "expanduser with_fonts ''out'' = Inr [''out'']" by (simp add: with_fonts_def)
  show "resolve_fonts with_fonts = Inr (TrueType ''/System/Library/Fonts/SFNS.ttf'' 48, TrueType ''/System/Library/Fonts/SFNS.ttf'' 28)"
    by (simp add: resolve_fonts_def with_fonts_def)
  show "\<forall>q. prefix q ([''out''] @ [job_name]) \<longrightarrow> \<not> is_file old_disk q"
    by (auto simp: is_file_def old_disk_def prefix_Cons job_name_def split: if_splits)
qed

lemma csv_written:
  assumes "create_sports_test_job ev base_path g f0 = Inr j"
  shows "job_files j (truediv (job_path j) ''roster.csv'') = Some (Text (csv_text (job_rows j)))"
proof -
  from create_job_Inr [OF assms] obtain base f2 fonts where
    jp: "job_path j = base @ [job_name]"
    and rs: "job_rows j = roster_rows g @ take 5 (roster_rows g)"
    and fl: "job_files j =
        (put_shots (base @ [job_name, ''Extracted'']) fonts (team_shots TEAMS 1 g) f2)
        (base @ [job_name, ''Extracted'', ''Tigers_John Doe_1.JPG''] \<mapsto>
            fixture_image fonts ''Tigers'' ''John Doe (Existing)'',
         base @ [job_name, ''Extracted'', ''IMG:INVALID<>NAME.JPG''] \<mapsto>
            fixture_image fonts ''Invalid'' ''Filename'',
         base @ [job_name, ''roster.csv''] \<mapsto>
            Text (csv_text (roster_rows g @ take 5 (roster_rows g))),
         base @ [job_name, ''TEST_INSTRUCTIONS.md''] \<mapsto>
            Instructions ''Tigers, Hawks, Sharks'' ''Tigers_John Doe_1.JPG'' ''IMG:INVALID<>NAME.JPG'')"
    by blast
  show ?thesis by (simp add: fl jp rs truediv_def)
qed

text \<open>
  C7. Two completed runs that start from the same state of the randomness source (the
  same seed) with the same base path produce the same rows, hence the same table text,
  and the same set of image file names, whatever the two hosts' fonts and previous disk
  contents are: every pose count and every pattern choice is a function of the source.
\<close>

theorem runs_reproducible:
  assumes "create_sports_test_job ev1 base_path g f1 = Inr j1"
    and "create_sports_test_job ev2 base_path g f2 = Inr j2"
    and "wf_fs f1" and "wf_fs f2"
  shows "job_rows j1 = job_rows j2
       \<and> job_files j1 (truediv (job_path j1) ''roster.csv'') = Some (Text (csv_text (job_rows j1)))
       \<and> job_files j2 (truediv (job_path j2) ''roster.csv'') = Some (Text (csv_text (job_rows j1)))
       \<and> listdir (job_files j1) (truediv (job_path j1) ''Extracted'')
           = listdir (job_files j2) (truediv (job_path j2) ''Extracted'')
       \<and> job_created_files j1 = job_created_files j2
       \<and> job_poses j1 = job_poses j2"
proof -
  from create_job_Inr [OF assms(1)] have
    a: "job_rows j1 = roster_rows g @ take 5 (roster_rows g)"
       "job_created_files j1 = map fst (team_shots TEAMS 1 g)"
       "job_poses j1 = team_poses TEAMS g"
       "job_conflict_newname j1 = ''Tigers_John Doe_1.JPG''"
       "job_invalid_name j1 = ''IMG:INVALID<>NAME.JPG''"
    by auto
  from create_job_Inr [OF assms(2)] have
    b: "job_rows j2 = roster_rows g @ take 5 (roster_rows g)"
       "job_created_files j2 = map fst (team_shots TEAMS 1 g)"
       "job_poses j2 = team_poses TEAMS g"
       "job_conflict_newname j2 = ''Tigers_John Doe_1.JPG''"
       "job_invalid_name j2 = ''IMG:INVALID<>NAME.JPG''"
    by auto
  from listdir_job [OF assms(1,3)] listdir_job [OF assms(2,4)]
    csv_written [OF assms(1)] csv_written [OF assms(2)] a b
  show ?thesis by (simp add: truediv_def)
qed

theorem runs_reproducible_witness:
  "wf_fs Map.empty \<and> wf_fs old_disk
   \<and> create_sports_test_job no_fonts ''out'' (\<lambda>i. i) Map.empty
        = Inr (projr (create_sports_test_job no_fonts ''out'' (\<lambda>i. i) Map.empty))
   \<and> create_sports_test_job with_fonts ''out'' (\<lambda>i. i) old_disk
        = Inr (projr (create_sports_test_job with_fonts ''out'' (\<lambda>i. i) old_disk))
   \<and> job_rows (projr (create_sports_test_job no_fonts ''out'' (\<lambda>i. i) Map.empty))
        = job_rows (projr (create_sports_test_job with_fonts ''out'' (\<lambda>i. i) old_disk))"
proof -
  have r1: "create_sports_test_job no_fonts ''out'' (\<lambda>i. i) Map.empty
        = Inr (projr (create_sports_test_job no_fonts ''out'' (\<lambda>i. i) Map.empty))"
    by (rule demo_run)
  have r2: "create_sports_test_job with_fonts ''out'' (\<lambda>i. i) old_disk
        = Inr (projr (create_sports_test_job with_fonts ''out'' (\<lambda>i. i) old_disk))"
    using old_disk_run [of "\<lambda>i. i"] by auto
  from runs_reproducible [OF r1 r2 wf_fs_empty wf_old_disk] r1 r2 wf_fs_empty wf_old_disk
  show ?thesis by blast
qed

section \<open>Where the fixture is built\<close>

lemma rmtree_other: "rmtree p f = Inr f' \<Longrightarrow> \<not> prefix p q \<Longrightarrow> f' q = f q"
  by (auto simp: rmtree_def split: option.splits node.splits)

lemma job_files_outside:
  assumes "create_sports_test_job ev base_path g f0 = Inr j"
    and np: "\<not> prefix p (job_path j)" and nq: "\<not> prefix (job_path j) p"
  shows "job_files j p = f0 p"
proof -
  from create_job_Inr [OF assms(1)] obtain base f1 f2 fonts where
    f1: "(if path_exists f0 (base @ [job_name]) then rmtree (base @ [job_name]) f0 else Inr f0) = Inr f1"
    and f2: "mkdir_all [base @ [job_name, ''Extracted''], base @ [job_name, ''Output''],
                  base @ [job_name, ''Finished Teams''], base @ [job_name, ''For Upload'']] f1 = Inr f2"
    and jp: "job_path j = base @ [job_name]"
    and fl: "job_files j =
        (put_shots (base @ [job_name, ''Extracted'']) fonts (team_shots TEAMS 1 g) f2)
        (base @ [job_name, ''Extracted'', ''Tigers_John Doe_1.JPG''] \<mapsto>
            fixture_image fonts ''Tigers'' ''John Doe (Existing)'',
         base @ [job_name, ''Extracted'', ''IMG:INVALID<>NAME.JPG''] \<mapsto>
            fixture_image fonts ''Invalid'' ''Filename'',
         base @ [job_name, ''roster.csv''] \<mapsto>
            Text (csv_text (roster_rows g @ take 5 (roster_rows g))),
         base @ [job_name, ''TEST_INSTRUCTIONS.md''] \<mapsto>
            Instructions ''Tigers, Hawks, Sharks'' ''Tigers_John Doe_1.JPG'' ''IMG:INVALID<>NAME.JPG'')"
    by blast
  let ?jp = "base @ [job_name]"
  have under: "p \<noteq> ?jp @ q" for q
    using nq unfolding jp by auto
  have "job_files j p = put_shots (base @ [job_name, ''Extracted'']) fonts (team_shots TEAMS 1 g) f2 p"
    unfolding fl
    using under [of "[''Extracted'', ''Tigers_John Doe_1.JPG'']"]
      under [of "[''Extracted'', ''IMG:INVALID<>NAME.JPG'']"]
      under [of "[''roster.csv'']"] under [of "[''TEST_INSTRUCTIONS.md'']"]
    by simp
  also have "\<dots> = f2 p"
  proof (rule put_shots_other, rule allI)
    fix n show "p \<noteq> (base @ [job_name, ''Extracted'']) @ [n]"
      using under [of "[''Extracted'', n]"] by simp
  qed
  also have "f2 p = f1 p"
  proof (rule mkdir_all_other [OF f2], rule ballI)
    fix d assume "d \<in> set [base @ [job_name, ''Extracted''], base @ [job_name, ''Output''],
                  base @ [job_name, ''Finished Teams''], base @ [job_name, ''For Upload'']]"
    then obtain x where d: "d = ?jp @ [x]" by auto
    show "\<not> prefix p d"
    proof
      assume "prefix p d"
      then have "prefix p (?jp @ [x])" unfolding d .
      then have "p = ?jp @ [x] \<or> prefix p ?jp" by (rule prefix_snoc [THEN iffD1])
      with np under [of "[x]"] show False unfolding jp by blast
    qed
  qed
  also have "f1 p = f0 p"
  proof (cases "path_exists f0 ?jp")
    case True
    with f1 have "rmtree ?jp f0 = Inr f1" by simp
    from rmtree_other [OF this] nq show ?thesis unfolding jp by simp
  next
    case False
    with f1 show ?thesis by simp
  qed
  finally show ?thesis .
qed

text \<open>
  C9. Whatever the \<^verbatim>\<open>--path\<close> option is, a completed run has built the fixture in a
  directory named \<open>2025_Youth_Baseball_League_TEST\<close>; the option (by default
  \<^verbatim>\<open>~/Desktop\<close>, expanded) only selects its parent directory. Outside the fixture
  directory the run changes nothing but its ancestors, which it creates when missing.
\<close>

theorem fixture_root_is_fixed_name:
  assumes "main ev arg g f0 = Inr (status, Some j)"
  shows "path_name (job_path j) = ''2025_Youth_Baseball_League_TEST''
       \<and> expanduser ev (case arg of None \<Rightarrow> os_path_expanduser ev ''~/Desktop'' | Some a \<Rightarrow> a)
           = Inr (path_parent (job_path j))
       \<and> status = 0
       \<and> (\<forall>p. job_files j p \<noteq> f0 p \<longrightarrow> prefix p (job_path j) \<or> prefix (job_path j) p)"
proof -
  let ?p = "case arg of None \<Rightarrow> os_path_expanduser ev ''~/Desktop'' | Some a \<Rightarrow> a"
  from assms have run: "create_sports_test_job ev ?p g f0 = Inr j" and s: "status = 0"
    by (auto simp: main_def Let_def split: sum.splits if_splits)
  from create_job_Inr [OF run] obtain base where
    "expanduser ev ?p = Inr base" "job_path j = base @ [job_name]"
    by blast
  then have "path_name (job_path j) = ''2025_Youth_Baseball_League_TEST''"
    and "expanduser ev ?p = Inr (path_parent (job_path j))"
    by (simp_all add: path_name_def path_parent_def job_name_def)
  with s job_files_outside [OF run] show ?thesis by blast
qed

theorem fixture_root_is_fixed_name_witness:
  "main with_fonts (Some ''out'') (\<lambda>i. i) old_disk
     = Inr (0, Some (projr (create_sports_test_job with_fonts ''out'' (\<lambda>i. i) old_disk)))
   \<and> job_path (projr (create_sports_test_job with_fonts ''out'' (\<lambda>i. i) old_disk))
       = [''out'', ''2025_Youth_Baseball_League_TEST'']"
proof -
  let ?j = "projr (create_sports_test_job with_fonts ''out'' (\<lambda>i. i) old_disk)"
  from old_disk_run [of "\<lambda>i. i"] obtain j0 where
    r: "create_sports_test_job with_fonts ''out'' (\<lambda>i. i) old_disk = Inr j0" by blast
  then have j0: "?j = j0" by simp
  from r have "main with_fonts (Some ''out'') (\<lambda>i. i) old_disk = Inr (0, Some j0)"
    by (simp add: main_def)
  with j0 have m: "main with_fonts (Some ''out'') (\<lambda>i. i) old_disk = Inr (0, Some ?j)"
    by simp
  from fixture_root_is_fixed_name [OF m]
  have "path_name (job_path ?j) = ''2025_Youth_Baseball_League_TEST''"
    and "expanduser with_fonts ''out'' = Inr (path_parent (job_path ?j))"
    by simp_all
  then have "job_path ?j = [''out'', ''2025_Youth_Baseball_League_TEST'']"
    by (auto simp: with_fonts_def path_name_def path_parent_def split: if_splits
        intro: trans [OF append_butlast_last_id [symmetric]])
  with m show ?thesis by simp
qed

section \<open>The order of the roster\<close>

lemma pose_shots_order:
  "map snd (pose_shots team p ks c g) = map (\<lambda>k. (team, p, k)) ks"
  by (induction ks arbitrary: c g) simp_all

lemma player_shots_order:
  "map snd (player_shots team ps c g) =
     concat (map (\<lambda>(p, n). map (\<lambda>k. (team, p, k)) [1..n]) (zip ps (player_poses ps g)))"
  by (induction ps arbitrary: c g) (simp_all add: pose_shots_order)

lemma team_shots_order: "map snd (team_shots ts c g) = roster_order ts (team_poses ts g)"
proof (induction ts arbitrary: c g)
  case Nil
  then show ?case by simp
next
  case (Cons t ts)
  obtain team players where t: "t = (team, players)" by (cases t)
  have z: "zip players (player_poses players g @ rest) = zip players (player_poses players g)" for rest
    by (simp add: zip_append2 length_player_poses)
  from Cons t show ?case
    by (simp add: player_shots_order z length_player_poses)
qed

lemma put_shots_absent:
  "n \<notin> fst ` set shots \<Longrightarrow> put_shots d fonts shots f (d @ [n]) = f (d @ [n])"
  by (induction shots arbitrary: f) auto

lemma put_shots_lookup:
  "distinct (map fst shots) \<Longrightarrow> s \<in> set shots \<Longrightarrow>
     put_shots d fonts shots f (d @ [fst s]) = Some (shot_image fonts s)"
proof (induction shots arbitrary: f)
  case Nil
  then show ?case by simp
next
  case (Cons x shots)
  show ?case
  proof (cases "s = x")
    case True
    from Cons.prems(1) have "fst x \<notin> fst ` set shots" by simp
    from put_shots_absent [OF this] True show ?thesis by simp
  next
    case False
    with Cons.prems have "distinct (map fst shots)" "s \<in> set shots" by simp_all
    from Cons.IH [OF this] show ?thesis by simp
  qed
qed

lemma py_str_1: "py_str 1 = ''1''"
  by code_simp

lemma first_shot:
  "\<exists>rest. team_shots TEAMS 1 g = (pattern_name (advance g 0) 1, ''Tigers'', ''John Doe'', 1) # rest"
proof -
  obtain ps rest where t: "TEAMS = (''Tigers'', ''John Doe'' # ps) # rest"
    by (simp add: TEAMS_def)
  have "1 \<le> drawn_pose_count g" using drawn_pose_count_range [of g] by auto
  then have "[1..drawn_pose_count g] = 1 # [2..drawn_pose_count g]"
    by (simp add: upto_rec1)
  then show ?thesis by (simp add: t)
qed

lemma shot_record_eq:
  assumes run: "create_sports_test_job ev base_path g f0 = Inr j"
    and i: "i < length (team_shots TEAMS 1 g)"
  shows "shot_record j i = record_of (snd (team_shots TEAMS 1 g ! i))"
proof -
  from create_job_Inr [OF run] obtain base f2 fonts where
    jp: "job_path j = base @ [job_name]"
    and rs: "job_rows j = roster_rows g @ take 5 (roster_rows g)"
    and fl: "job_files j =
        (put_shots (base @ [job_name, ''Extracted'']) fonts (team_shots TEAMS 1 g) f2)
        (base @ [job_name, ''Extracted'', ''Tigers_John Doe_1.JPG''] \<mapsto>
            fixture_image fonts ''Tigers'' ''John Doe (Existing)'',
         base @ [job_name, ''Extracted'', ''IMG:INVALID<>NAME.JPG''] \<mapsto>
            fixture_image fonts ''Invalid'' ''Filename'',
         base @ [job_name, ''roster.csv''] \<mapsto>
            Text (csv_text (roster_rows g @ take 5 (roster_rows g))),
         base @ [job_name, ''TEST_INSTRUCTIONS.md''] \<mapsto>
            Instructions ''Tigers, Hawks, Sharks'' ''Tigers_John Doe_1.JPG'' ''IMG:INVALID<>NAME.JPG'')"
    by blast
  let ?shots = "team_shots TEAMS 1 g"
  let ?s = "?shots ! i"
  let ?ex = "base @ [job_name, ''Extracted'']"
  from i have mem: "?s \<in> set ?shots" by simp
  obtain name team player k where s: "?s = (name, team, player, k)" by (cases ?s)
  from shot_row_col0 [OF mem] s obtain first last' where
    sp: "unpack2 (split_once (CHR '' '') player) = Inr (first, last')"
    and row: "shot_row ?s = [name, first, last', [], [], [], team, team]"
    by auto
  from i have r: "job_rows j ! i = [name, first, last', [], [], [], team, team]"
    by (simp add: rs roster_rows_def nth_append row)
  note n = numbered_team_shots [of 1 TEAMS g]
  from mem have nm: "name \<in> set (map fst ?shots)" using s by force
  have nf: "name \<noteq> ''Tigers_John Doe_1.JPG''" "name \<noteq> ''IMG:INVALID<>NAME.JPG''"
    using numbered_not_fixture [OF n] nm by metis+
  have "job_files j (?ex @ [name]) = put_shots ?ex fonts ?shots f2 (?ex @ [name])"
    unfolding fl using nf by simp
  also have "\<dots> = Some (shot_image fonts ?s)"
    using put_shots_lookup [OF numbered_distinct [OF n] mem, of ?ex fonts f2] s by simp
  finally have img: "job_files j (?ex @ [name]) = Some (shot_image fonts ?s)" .
  show ?thesis
    using img by (simp add: shot_record_def r jp truediv_def s record_of_def sp shot_image_def)
qed

text \<open>
  C6. The shots of a completed run, read from its rows and images in the order the rows
  were emitted, are exactly the specification's roster order for the pose counts drawn:
  team table order, then player order, then pose index 1 up to the player's pose count.
  The first one is pose 1 of John Doe of the Tigers.
\<close>

theorem roster_follows_table_order:
  assumes "create_sports_test_job ev base_path g f0 = Inr j"
  shows "map (shot_record j) [0..<length (job_created_files j)]
           = map record_of (roster_order TEAMS (job_poses j))
       \<and> length (job_created_files j) = length (job_rows j) - 5
       \<and> hd (roster_order TEAMS (job_poses j)) = (''Tigers'', ''John Doe'', 1)
       \<and> shot_record j 0 = (''Tigers'', ''John'', ''Doe'', Some ''John Doe - Pose 1'')"
proof -
  let ?shots = "team_shots TEAMS 1 g"
  from create_job_Inr [OF assms] have
    cf: "job_created_files j = map fst ?shots"
    and ps: "job_poses j = team_poses TEAMS g"
    by auto
  have ord: "roster_order TEAMS (job_poses j) = map snd ?shots"
    unfolding ps by (rule team_shots_order [symmetric])
  have a: "map (shot_record j) [0..<length (job_created_files j)]
           = map record_of (roster_order TEAMS (job_poses j))"
    unfolding ord cf
    by (rule nth_equalityI) (simp_all add: shot_record_eq [OF assms])
  from created_files_count(4) [OF assms]
  have b: "length (job_created_files j) = length (job_rows j) - 5" by simp
  from first_shot [of g] obtain rest where
    f: "?shots = (pattern_name (advance g 0) 1, ''Tigers'', ''John Doe'', 1) # rest" by blast
  then have c: "hd (roster_order TEAMS (job_poses j)) = (''Tigers'', ''John Doe'', 1)"
    unfolding ord by simp
  from f have "0 < length ?shots" by simp
  from shot_record_eq [OF assms this] f
  have d: "shot_record j 0 = (''Tigers'', ''John'', ''Doe'', Some ''John Doe - Pose 1'')"
    by (simp add: record_of_def split_john_doe py_str_1)
  from a b c d show ?thesis by blast
qed

theorem roster_follows_table_order_witness:
  "create_sports_test_job no_fonts ''out'' (\<lambda>_. 0) Map.empty = Inr demo
   \<and> map (shot_record demo) [0..<length (job_created_files demo)]
           = map record_of (roster_order TEAMS (job_poses demo))
   \<and> shot_record demo 0 = (''Tigers'', ''John'', ''Doe'', Some ''John Doe - Pose 1'')"
  using roster_follows_table_order [OF demo_ok] demo_ok by blast

section \<open>The conflict fixture\<close>

lemma extension_camera_name: "extension (pattern_name d c) = ''JPG''"
  using pattern_name_cases [of d c] by (auto simp: extension_def)

text \<open>
  C4. The name of the conflict fixture is \<open>Tigers_John Doe_1.JPG\<close>, and it is the name
  the renaming rule gives to the shot of the first row of the table, which is pose 1 of
  the first player of the first team; the fixture and that shot's original image are
  both in \<open>Extracted\<close>.
\<close>

theorem conflict_name_is_rename_target:
  assumes "create_sports_test_job ev base_path g f0 = Inr j"
  shows "job_conflict_newname j = ''Tigers_John Doe_1.JPG''
       \<and> job_conflict_newname j =
           rename_rule (job_rows j ! 0 ! 7) (job_rows j ! 0 ! 1) (job_rows j ! 0 ! 2) 1
             (extension (job_rows j ! 0 ! 0))
       \<and> shot_record j 0 = record_of (fst (hd TEAMS), hd (snd (hd TEAMS)), 1)
       \<and> (\<exists>im. job_files j (truediv (truediv (job_path j) ''Extracted'') (job_conflict_newname j))
                  = Some (Jpeg im))
       \<and> (\<exists>im. job_files j (truediv (truediv (job_path j) ''Extracted'') (job_rows j ! 0 ! 0))
                  = Some (Jpeg im))"
proof -
  let ?shots = "team_shots TEAMS 1 g"
  from create_job_Inr [OF assms] obtain base f2 fonts where
    jp: "job_path j = base @ [job_name]"
    and rs: "job_rows j = roster_rows g @ take 5 (roster_rows g)"
    and cn: "job_conflict_newname j = ''Tigers_John Doe_1.JPG''"
    and fl: "job_files j =
        (put_shots (base @ [job_name, ''Extracted'']) fonts (team_shots TEAMS 1 g) f2)
        (base @ [job_name, ''Extracted'', ''Tigers_John Doe_1.JPG''] \<mapsto>
            fixture_image fonts ''Tigers'' ''John Doe (Existing)'',
         base @ [job_name, ''Extracted'', ''IMG:INVALID<>NAME.JPG''] \<mapsto>
            fixture_image fonts ''Invalid'' ''Filename'',
         base @ [job_name, ''roster.csv''] \<mapsto>
            Text (csv_text (roster_rows g @ take 5 (roster_rows g))),
         base @ [job_name, ''TEST_INSTRUCTIONS.md''] \<mapsto>
            Instructions ''Tigers, Hawks, Sharks'' ''Tigers_John Doe_1.JPG'' ''IMG:INVALID<>NAME.JPG'')"
    by blast
  from first_shot [of g] obtain rest where
    f: "?shots = (pattern_name (advance g 0) 1, ''Tigers'', ''John Doe'', 1) # rest" by blast
  then have r0: "job_rows j ! 0 =
      [pattern_name (advance g 0) 1, ''John'', ''Doe'', [], [], [], ''Tigers'', ''Tigers'']"
    by (simp add: rs roster_rows_def shot_row_def split_john_doe)
  have a: "job_conflict_newname j =
           rename_rule (job_rows j ! 0 ! 7) (job_rows j ! 0 ! 1) (job_rows j ! 0 ! 2) 1
             (extension (job_rows j ! 0 ! 0))"
    by (simp add: r0 cn rename_rule_def extension_camera_name py_str_1)
  from f have "0 < length ?shots" by simp
  note sr = shot_record_eq [OF assms this]
  from sr f have b: "shot_record j 0 = record_of (fst (hd TEAMS), hd (snd (hd TEAMS)), 1)"
    by (simp add: TEAMS_def)
  have c: "\<exists>im. job_files j (truediv (truediv (job_path j) ''Extracted'') (job_conflict_newname j))
                  = Some (Jpeg im)"
    by (simp add: fl jp cn truediv_def fixture_image_def)
  from sr f have "shot_record j 0 = (''Tigers'', ''John'', ''Doe'', Some ''John Doe - Pose 1'')"
    by (simp add: record_of_def split_john_doe py_str_1)
  then have d: "\<exists>im. job_files j (truediv (truediv (job_path j) ''Extracted'') (job_rows j ! 0 ! 0))
                  = Some (Jpeg im)"
    by (auto simp: shot_record_def Let_def split: option.splits node.splits)
  from cn a b c d show ?thesis by blast
qed

theorem conflict_name_is_rename_target_witness:
  "create_sports_test_job no_fonts ''out'' (\<lambda>_. 0) Map.empty = Inr demo
   \<and> job_conflict_newname demo = ''Tigers_John Doe_1.JPG''
   \<and> job_conflict_newname demo =
       rename_rule (job_rows demo ! 0 ! 7) (job_rows demo ! 0 ! 1) (job_rows demo ! 0 ! 2) 1
         (extension (job_rows demo ! 0 ! 0))"
  using conflict_name_is_rename_target [OF demo_ok] demo_ok by blast

end
